theory Spec2Isabelle
  imports Complex_Main "HOL-Library.Word"
begin

section \<open>Data model of \<open>src/cpp/main.cpp\<close>\<close>

text \<open>
  The program works on two parallel buffers and one binary tree.

  \<^item> The pixel buffer \<open>img\<close> is a \<open>cv::Mat\<close> of \<open>cv::Vec3b\<close>: a list of rows, each a list
    of byte triples.
  \<^item> The classification buffer \<open>classes\<close> is a \<open>CV_8UC1\<close> matrix: a list of rows of bytes.
  \<^item> A \<open>t_color_node*\<close> is either the null pointer or an owned node with its five fields.

  Numbers of type \<open>double\<close> are read as real numbers: rounding is outside this model.
  The one non-finite value the arithmetic of the program produces is the quotient \<open>0/0\<close>
  of \<open>get_class_mean_cov\<close> on a class without pixels, which fills \<open>mean\<close> and
  \<open>covariance\<close> with NaN in every entry. A matrix field is therefore an option: \<open>None\<close>
  is a matrix that holds no finite numbers (all NaN, or the empty matrix of a node that
  was just constructed), \<open>Some\<close> carries the entries.
\<close>

type_synonym uchar = "8 word"
type_synonym vec3b = "uchar \<times> uchar \<times> uchar"
type_synonym vec3 = "real \<times> real \<times> real"
type_synonym mat3 = "vec3 \<times> vec3 \<times> vec3"
type_synonym image = "vec3b list list"
type_synonym class_buffer = "uchar list list"

datatype t_color_node =
    Null
  | Node (mean: "vec3 option") (covariance: "mat3 option") (classid: uchar)
         (left: t_color_node) (right: t_color_node)

text \<open>
  \<open>cv::eigen\<close> belongs to OpenCV, not to this repository. The program reads two entries
  of its result only: \<open>eigenvalues.at<double>(0)\<close> and \<open>eigenvectors.row(0)\<close>. Every
  function that calls it takes it as the parameter \<open>eigen\<close>, which maps the matrix it is
  given to these two entries; either may be NaN (\<open>None\<close>).
\<close>

type_synonym eigen_fn = "mat3 option \<Rightarrow> real option \<times> vec3 option"

subsection \<open>The matrix arithmetic the program uses\<close>

definition zero_vec :: vec3 where
  "zero_vec = (0, 0, 0)"

definition zero_mat :: mat3 where
  "zero_mat = ((0, 0, 0), (0, 0, 0), (0, 0, 0))"

fun vadd :: "vec3 \<Rightarrow> vec3 \<Rightarrow> vec3" where
  "vadd (a0, a1, a2) (b0, b1, b2) = (a0 + b0, a1 + b1, a2 + b2)"

fun vsub :: "vec3 \<Rightarrow> vec3 \<Rightarrow> vec3" where
  "vsub (a0, a1, a2) (b0, b1, b2) = (a0 - b0, a1 - b1, a2 - b2)"

fun vdiv :: "vec3 \<Rightarrow> real \<Rightarrow> vec3" where
  "vdiv (a0, a1, a2) n = (a0 / n, a1 / n, a2 / n)"

fun vscale :: "real \<Rightarrow> vec3 \<Rightarrow> vec3" where
  "vscale k (a0, a1, a2) = (k * a0, k * a1, k * a2)"

fun dot :: "vec3 \<Rightarrow> vec3 \<Rightarrow> real" where
  "dot (a0, a1, a2) (b0, b1, b2) = a0 * b0 + a1 * b1 + a2 * b2"

text \<open>\<open>outer a b\<close> is \<open>a * b.t()\<close> for two 3x1 matrices.\<close>

fun outer :: "vec3 \<Rightarrow> vec3 \<Rightarrow> mat3" where
  "outer (a0, a1, a2) b = (vscale a0 b, vscale a1 b, vscale a2 b)"

fun madd :: "mat3 \<Rightarrow> mat3 \<Rightarrow> mat3" where
  "madd (r0, r1, r2) (s0, s1, s2) = (vadd r0 s0, vadd r1 s1, vadd r2 s2)"

fun msub :: "mat3 \<Rightarrow> mat3 \<Rightarrow> mat3" where
  "msub (r0, r1, r2) (s0, s1, s2) = (vsub r0 s0, vsub r1 s1, vsub r2 s2)"

fun mdiv :: "mat3 \<Rightarrow> real \<Rightarrow> mat3" where
  "mdiv (r0, r1, r2) n = (vdiv r0 n, vdiv r1 n, vdiv r2 n)"

text \<open>The normalised colour: \<open>scaled.at<double>(k) = color[k]/255.0f\<close>.\<close>

fun scaled :: "vec3b \<Rightarrow> vec3" where
  "scaled (c0, c1, c2) = (real (unat c0) / 255, real (unat c1) / 255, real (unat c2) / 255)"

subsection \<open>\<open>get_class_mean_cov\<close>\<close>

text \<open>
  The two nested loops of \<open>get_class_mean_cov\<close>, over the columns of one row and over
  the rows. The loop bounds are those of \<open>img\<close>; \<open>classes\<close> is read at the same index.
  In \<open>find_dominant_colors\<close> both buffers have the same shape; where \<open>classes\<close> is
  shorter the C++ would read out of bounds, and the model stops there.
\<close>

fun accumulate_row :: "uchar \<Rightarrow> vec3b list \<Rightarrow> uchar list \<Rightarrow> vec3 \<times> mat3 \<times> real
    \<Rightarrow> vec3 \<times> mat3 \<times> real" where
  "accumulate_row cid [] ptrClass acc = acc"
| "accumulate_row cid (color # ptr) [] acc = acc"
| "accumulate_row cid (color # ptr) (c # ptrClass) (msum, cov, pixcount) =
     accumulate_row cid ptr ptrClass
       (if c \<noteq> cid then (msum, cov, pixcount)
        else (vadd msum (scaled color),
              madd cov (outer (scaled color) (scaled color)),
              pixcount + 1))"

fun accumulate_rows :: "uchar \<Rightarrow> image \<Rightarrow> class_buffer \<Rightarrow> vec3 \<times> mat3 \<times> real
    \<Rightarrow> vec3 \<times> mat3 \<times> real" where
  "accumulate_rows cid [] classes acc = acc"
| "accumulate_rows cid (ptr # img) [] acc = acc"
| "accumulate_rows cid (ptr # img) (ptrClass # classes) acc =
     accumulate_rows cid img classes (accumulate_row cid ptr ptrClass acc)"

text \<open>
  After the loops the local matrix \<open>mean\<close> of the C++ (here \<open>msum\<close>, since \<open>mean\<close>
  names the field) is the sum of the normalised colours of the class and \<open>cov\<close>
  the sum of their outer products. The function then runs
  \<^verbatim>\<open>cov = cov - (mean * mean.t()) / pixcount;  mean = mean / pixcount;\<close>
  and stores both in the node. With \<open>pixcount = 0\<close> both quotients are \<open>0/0\<close>.
\<close>

fun get_class_mean_cov :: "image \<Rightarrow> class_buffer \<Rightarrow> t_color_node \<Rightarrow> t_color_node" where
  "get_class_mean_cov img classes Null = Null"
| "get_class_mean_cov img classes (Node m c cid l r) =
     (case accumulate_rows cid img classes (zero_vec, zero_mat, 0) of
        (msum, cov, pixcount) \<Rightarrow>
          if pixcount = 0 then Node None None cid l r
          else Node (Some (vdiv msum pixcount))
                    (Some (msub cov (mdiv (outer msum msum) pixcount))) cid l r)"

subsection \<open>Pointers into the tree\<close>

text \<open>
  The tree owns its nodes and no node is shared, so a pointer to a node of the tree is
  the path that leads to it from the root. \<open>node_at\<close> dereferences such a pointer and
  \<open>modify_at\<close> writes through it.
\<close>

datatype dir = L | R

fun node_at :: "t_color_node \<Rightarrow> dir list \<Rightarrow> t_color_node" where
  "node_at t [] = t"
| "node_at Null (d # ds) = Null"
| "node_at (Node m c cid l r) (L # ds) = node_at l ds"
| "node_at (Node m c cid l r) (R # ds) = node_at r ds"

fun modify_at :: "dir list \<Rightarrow> (t_color_node \<Rightarrow> t_color_node) \<Rightarrow> t_color_node
    \<Rightarrow> t_color_node" where
  "modify_at [] f t = f t"
| "modify_at (d # ds) f Null = Null"
| "modify_at (L # ds) f (Node m c cid l r) = Node m c cid (modify_at ds f l) r"
| "modify_at (R # ds) f (Node m c cid l r) = Node m c cid l (modify_at ds f r)"

subsection \<open>\<open>get_next_classid\<close>\<close>

text \<open>
  The breadth-first loop over a \<open>std::queue\<close>: the head is popped, its id compared with
  \<open>maxid\<close>, and each child that is not null is pushed at the back. A null pointer is
  never pushed; the equation for it keeps the function total.
\<close>

function next_classid_loop :: "t_color_node list \<Rightarrow> int \<Rightarrow> int" where
  "next_classid_loop [] maxid = maxid"
| "next_classid_loop (Null # queue) maxid = next_classid_loop queue maxid"
| "next_classid_loop (Node m c cid l r # queue) maxid =
     next_classid_loop
       (queue @ (if l \<noteq> Null then [l] else []) @ (if r \<noteq> Null then [r] else []))
       (if uint cid > maxid then uint cid else maxid)"
  by pat_completeness auto
termination
  by (relation "measure (\<lambda>(queue, maxid). sum_list (map (\<lambda>t. 2 * size t + 1) queue))") auto

definition get_next_classid :: "t_color_node \<Rightarrow> int" where
  "get_next_classid tree = next_classid_loop [tree] 0 + 1"

subsection \<open>\<open>get_max_eigenvalue_node\<close>\<close>

text \<open>
  The queue holds pointers, here paths with the node they lead to. A node with both
  children pushes them and is skipped; any other node is treated as a leaf: its top
  eigenvalue is compared with \<open>max_eigen\<close> by \<open>val > max_eigen\<close>, which is false for
  a NaN. \<open>ret\<close> starts as the pointer the function was given and \<open>max_eigen\<close> as \<open>-1\<close>.
\<close>

function max_eigenvalue_loop :: "eigen_fn \<Rightarrow> (dir list \<times> t_color_node) list \<Rightarrow> real
    \<Rightarrow> dir list \<Rightarrow> dir list" where
  "max_eigenvalue_loop eigen [] max_eigen ret = ret"
| "max_eigenvalue_loop eigen ((p, Null) # queue) max_eigen ret =
     max_eigenvalue_loop eigen queue max_eigen ret"
| "max_eigenvalue_loop eigen ((p, Node m c cid l r) # queue) max_eigen ret =
     (if l \<noteq> Null \<and> r \<noteq> Null
      then max_eigenvalue_loop eigen (queue @ [(p @ [L], l), (p @ [R], r)]) max_eigen ret
      else (case fst (eigen c) of
              None \<Rightarrow> max_eigenvalue_loop eigen queue max_eigen ret
            | Some val \<Rightarrow>
                if val > max_eigen then max_eigenvalue_loop eigen queue val p
                else max_eigenvalue_loop eigen queue max_eigen ret))"
  by pat_completeness auto
termination
  by (relation "measure (\<lambda>(eigen, queue, max_eigen, ret).
        sum_list (map (\<lambda>(p, t). 2 * size t + 1) queue))") auto

fun get_max_eigenvalue_node :: "eigen_fn \<Rightarrow> t_color_node \<Rightarrow> dir list" where
  "get_max_eigenvalue_node eigen Null = []"
| "get_max_eigenvalue_node eigen (Node m c cid l r) =
     (if l = Null \<and> r = Null then []
      else max_eigenvalue_loop eigen [([], Node m c cid l r)] (- 1) [])"

subsection \<open>\<open>get_leaves\<close> and the outputs built from it\<close>

function get_leaves_loop :: "t_color_node list \<Rightarrow> t_color_node list \<Rightarrow> t_color_node list"
  where
  "get_leaves_loop [] leaf_nodes = leaf_nodes"
| "get_leaves_loop (Null # queue) leaf_nodes = get_leaves_loop queue leaf_nodes"
| "get_leaves_loop (Node m c cid l r # queue) leaf_nodes =
     (if l \<noteq> Null \<and> r \<noteq> Null then get_leaves_loop (queue @ [l, r]) leaf_nodes
      else get_leaves_loop queue (leaf_nodes @ [Node m c cid l r]))"
  by pat_completeness auto
termination
  by (relation "measure (\<lambda>(queue, leaf_nodes). sum_list (map (\<lambda>t. 2 * size t + 1) queue))")
     auto

definition get_leaves :: "t_color_node \<Rightarrow> t_color_node list" where
  "get_leaves tree = get_leaves_loop [tree] []"

text \<open>
  \<open>cv::Vec3b(x, y, z)\<close> takes three \<open>uchar\<close>, so each \<open>double\<close> argument is converted:
  the fractional part is dropped, and the conversion is undefined when the result does
  not fit a byte. \<open>None\<close> is a colour the C++ leaves undefined.
\<close>

definition double_to_uchar :: "real \<Rightarrow> uchar option" where
  "double_to_uchar x =
     (if - 1 < x \<and> x < 256 then Some (word_of_int (if x < 0 then \<lceil>x\<rceil> else \<lfloor>x\<rfloor>))
      else None)"

fun mean_color :: "vec3 option \<Rightarrow> vec3b option" where
  "mean_color None = None"
| "mean_color (Some (m0, m1, m2)) =
     (case (double_to_uchar (m0 * 255), double_to_uchar (m1 * 255),
            double_to_uchar (m2 * 255)) of
        (Some c0, Some c1, Some c2) \<Rightarrow> Some (c0, c1, c2)
      | _ \<Rightarrow> None)"

definition get_dominant_colors :: "t_color_node \<Rightarrow> vec3b option list" where
  "get_dominant_colors tree = map (\<lambda>leaf. mean_color (mean leaf)) (get_leaves tree)"

text \<open>
  \<open>get_quantized_image\<close>: for each pixel the loop over all leaves writes the mean of
  every leaf whose id matches, so the last matching leaf stays; a pixel no leaf matches
  keeps the initial \<open>cv::Scalar(0)\<close>.
\<close>

fun quantized_pixel :: "t_color_node list \<Rightarrow> uchar \<Rightarrow> vec3b option \<Rightarrow> vec3b option" where
  "quantized_pixel [] pixel_class px = px"
| "quantized_pixel (leaf # leaves) pixel_class px =
     quantized_pixel leaves pixel_class
       (if classid leaf = pixel_class then mean_color (mean leaf) else px)"

definition get_quantized_image :: "class_buffer \<Rightarrow> t_color_node \<Rightarrow> vec3b option list list"
  where
  "get_quantized_image classes tree =
     (let leaves = get_leaves tree
      in map (map (\<lambda>pixel_class. quantized_pixel leaves pixel_class (Some (0, 0, 0))))
           classes)"

subsection \<open>\<open>get_viewable_image\<close>\<close>

definition max_color_count :: int where
  "max_color_count = 18"

definition palette :: "vec3b list" where
  "palette =
     [(0, 0, 0), (255, 0, 0), (0, 255, 0), (0, 0, 255), (255, 255, 0), (0, 255, 255),
      (255, 0, 255), (128, 128, 128), (128, 255, 128), (32, 32, 32), (255, 128, 128),
      (128, 128, 255), (255, 255, 255), (32, 128, 128), (128, 32, 128), (128, 128, 32),
      (128, 32, 32), (32, 128, 32)]"

definition palette_message :: string where
  "palette_message = ''You should increase the number of predefined colors!''"

text \<open>
  The function returns the image; what it prints is the second component. A pixel that
  is skipped keeps the \<open>cv::Scalar(0, 0, 0)\<close> the image was created with.
\<close>

fun viewable_row :: "uchar list \<Rightarrow> vec3b list \<times> string list" where
  "viewable_row [] = ([], [])"
| "viewable_row (c # ptrClass) =
     (case viewable_row ptrClass of
        (ptr, printed) \<Rightarrow>
          if uint c \<ge> max_color_count then ((0, 0, 0) # ptr, palette_message # printed)
          else (palette ! nat (uint c) # ptr, printed))"

fun get_viewable_image :: "class_buffer \<Rightarrow> image \<times> string list" where
  "get_viewable_image [] = ([], [])"
| "get_viewable_image (ptrClass # classes) =
     (case (viewable_row ptrClass, get_viewable_image classes) of
        ((ptr, printed), (ret, printed')) \<Rightarrow> (ptr # ret, printed @ printed'))"

subsection \<open>\<open>partition_class\<close>\<close>

text \<open>
  The comparison \<open>this_value <= comparison_value\<close> of the split: \<open>eig * scaled\<close> against
  \<open>eig * mean\<close>. It is false as soon as the eigenvector or the mean is NaN.
\<close>

fun goes_left :: "vec3 option \<Rightarrow> vec3 option \<Rightarrow> vec3b \<Rightarrow> bool" where
  "goes_left (Some eig) (Some m) color = (dot eig (scaled color) \<le> dot eig m)"
| "goes_left eig m color = False"

text \<open>
  The two loops of the split, over the columns of a row and over the rows, with the
  bounds of \<open>img\<close> as in \<open>get_class_mean_cov\<close>. \<open>lft\<close> is the comparison for the
  node that is split. An entry of another class is skipped, an entry of the class gets
  one of the two new ids.
\<close>

fun partition_row :: "(vec3b \<Rightarrow> bool) \<Rightarrow> uchar \<Rightarrow> uchar \<Rightarrow> uchar \<Rightarrow> vec3b list
    \<Rightarrow> uchar list \<Rightarrow> uchar list" where
  "partition_row lft cid newidleft newidright [] ptrClass = ptrClass"
| "partition_row lft cid newidleft newidright (color # ptr) [] = []"
| "partition_row lft cid newidleft newidright (color # ptr) (c # ptrClass) =
     (if c \<noteq> cid then c else if lft color then newidleft else newidright)
     # partition_row lft cid newidleft newidright ptr ptrClass"

fun partition_rows :: "(vec3b \<Rightarrow> bool) \<Rightarrow> uchar \<Rightarrow> uchar \<Rightarrow> uchar \<Rightarrow> image
    \<Rightarrow> class_buffer \<Rightarrow> class_buffer" where
  "partition_rows lft cid newidleft newidright [] classes = classes"
| "partition_rows lft cid newidleft newidright (ptr # img) [] = []"
| "partition_rows lft cid newidleft newidright (ptr # img) (ptrClass # classes) =
     partition_row lft cid newidleft newidright ptr ptrClass
     # partition_rows lft cid newidleft newidright img classes"

text \<open>
  \<open>new t_color_node()\<close> value-initialises the node: empty matrices, id 0, null children.
  \<open>partition_class\<close> receives \<open>nextid\<close> as a \<open>uchar\<close>, and \<open>newidright = nextid + 1\<close> is
  a \<open>uchar\<close> again, so the sum wraps at 256. The function writes the two children
  through the pointer \<open>node\<close> and relabels \<open>classes\<close> in place; the model returns the
  pixel buffer, the new classification buffer and the new tree.
\<close>

definition new_t_color_node :: t_color_node where
  "new_t_color_node = Node None None 0 Null Null"

fun set_classid :: "uchar \<Rightarrow> t_color_node \<Rightarrow> t_color_node" where
  "set_classid i Null = Null"
| "set_classid i (Node m c cid l r) = Node m c i l r"

fun set_children :: "t_color_node \<Rightarrow> t_color_node \<Rightarrow> t_color_node \<Rightarrow> t_color_node" where
  "set_children l' r' Null = Null"
| "set_children l' r' (Node m c cid l r) = Node m c cid l' r'"

definition partition_class :: "eigen_fn \<Rightarrow> image \<Rightarrow> class_buffer \<Rightarrow> uchar \<Rightarrow> dir list
    \<Rightarrow> t_color_node \<Rightarrow> image \<times> class_buffer \<times> t_color_node" where
  "partition_class eigen img classes nextid node tree =
     (case node_at tree node of
        Null \<Rightarrow> (img, classes, tree)
      | Node m cov cid l r \<Rightarrow>
          (let newidleft = nextid;
               newidright = nextid + 1;
               eig = snd (eigen cov);
               tree' = modify_at node
                         (set_children (set_classid newidleft new_t_color_node)
                                       (set_classid newidright new_t_color_node)) tree
           in (img, partition_rows (goes_left eig m) cid newidleft newidright img classes,
               tree')))"

subsection \<open>\<open>find_dominant_colors\<close>\<close>

text \<open>
  One pass of the body of the \<open>for\<close> loop. \<open>get_next_classid\<close> returns an \<open>int\<close> that
  the call converts to the \<open>uchar\<close> parameter of \<open>partition_class\<close>.
\<close>

definition split_step :: "eigen_fn \<Rightarrow> image \<times> class_buffer \<times> t_color_node
    \<Rightarrow> image \<times> class_buffer \<times> t_color_node" where
  "split_step eigen s =
     (case s of (img, classes, tree) \<Rightarrow>
        (let next = get_max_eigenvalue_node eigen tree
         in case partition_class eigen img classes (word_of_int (get_next_classid tree))
                   next tree of
              (img', classes', tree') \<Rightarrow>
                (let tree1 = modify_at (next @ [L]) (get_class_mean_cov img' classes') tree';
                     tree2 = modify_at (next @ [R]) (get_class_mean_cov img' classes') tree1
                 in (img', classes', tree2))))"

text \<open>
  The state before the loop: every pixel in class 1, a root with id 1 and no children,
  and the statistics of the root computed over the whole image.
\<close>

definition initial_state :: "image \<Rightarrow> image \<times> class_buffer \<times> t_color_node" where
  "initial_state img =
     (let classes = map (map (\<lambda>p. 1)) img
      in (img, classes, get_class_mean_cov img classes (set_classid 1 new_t_color_node)))"

text \<open>
  \<open>for(int i = 0; i < count-1; ++i)\<close> runs its body \<open>count - 1\<close> times, and not at all
  when \<open>count \<le> 1\<close>; the body does not read \<open>i\<close>.
\<close>

definition split_loop :: "eigen_fn \<Rightarrow> image \<Rightarrow> int \<Rightarrow> image \<times> class_buffer \<times> t_color_node"
  where
  "split_loop eigen img count = (split_step eigen ^^ nat (count - 1)) (initial_state img)"

record outputs =
  colors :: "vec3b option list"
  final_classes :: class_buffer
  quantized :: "vec3b option list list"
  viewable :: image
  printed :: "string list"

text \<open>
  The function returns \<open>colors\<close>; \<open>quantized\<close> and \<open>viewable\<close> are the images it writes
  to \<open>quantized.png\<close> and \<open>classification.png\<close>. The swatch strip of
  \<open>get_dominant_palette\<close> is drawn by OpenCV from \<open>colors\<close> alone and is left out.
\<close>

definition find_dominant_colors :: "eigen_fn \<Rightarrow> image \<Rightarrow> int \<Rightarrow> outputs" where
  "find_dominant_colors eigen img count =
     (case split_loop eigen img count of
        (img', classes, tree) \<Rightarrow>
          \<lparr> colors = get_dominant_colors tree,
            final_classes = classes,
            quantized = get_quantized_image classes tree,
            viewable = fst (get_viewable_image classes),
            printed = snd (get_viewable_image classes) \<rparr>)"

section \<open>Vocabulary of the specification\<close>

subsection \<open>The pixels of a class and their moments\<close>

text \<open>
  The normalised colours of exactly the pixels whose classification id is \<open>cid\<close>, in
  scan order, and the quantities the specification names: their sum, the sum of their
  outer products, \<open>mean = sum / pixelCount\<close> and
  \<open>covariance = (sumOuterProduct / pixelCount) - mean * mean\<^sup>t\<close>.
\<close>

definition class_pixels :: "uchar \<Rightarrow> image \<Rightarrow> class_buffer \<Rightarrow> vec3 list" where
  "class_pixels cid img classes =
     map (\<lambda>(color, c). scaled color)
       (filter (\<lambda>(color, c). c = cid)
          (concat (map (\<lambda>(ptr, ptrClass). zip ptr ptrClass) (zip img classes))))"

fun vsum :: "vec3 list \<Rightarrow> vec3" where
  "vsum [] = zero_vec"
| "vsum (x # xs) = vadd x (vsum xs)"

fun outer_sum :: "vec3 list \<Rightarrow> mat3" where
  "outer_sum [] = zero_mat"
| "outer_sum (x # xs) = madd (outer x x) (outer_sum xs)"

definition spec_mean :: "vec3 list \<Rightarrow> vec3" where
  "spec_mean xs = vdiv (vsum xs) (real (length xs))"

definition spec_covariance :: "vec3 list \<Rightarrow> mat3" where
  "spec_covariance xs =
     msub (mdiv (outer_sum xs) (real (length xs))) (outer (spec_mean xs) (spec_mean xs))"

text \<open>
  The matrix the code stores instead: the sum of outer products minus
  \<open>sum * sum\<^sup>t / pixelCount\<close>, which is not divided by the pixel count.
\<close>

definition scatter :: "vec3 list \<Rightarrow> mat3" where
  "scatter xs = msub (outer_sum xs) (mdiv (outer (vsum xs) (vsum xs)) (real (length xs)))"

fun mscale :: "real \<Rightarrow> mat3 \<Rightarrow> mat3" where
  "mscale k (r0, r1, r2) = (vscale k r0, vscale k r1, vscale k r2)"

subsection \<open>Leaves, ids and eigenvalues of a tree\<close>

text \<open>
  The traversals descend into a node only when both its children are present; every
  other node counts as a leaf. \<open>leaf_paths\<close> lists the pointers to the leaves,
  \<open>leaves_of\<close> the leaves themselves, \<open>max_id\<close> is the largest id in the tree (0 for
  no node), and \<open>top_eigenvalue\<close> is what \<open>get_max_eigenvalue_node\<close> reads off a leaf.
\<close>

fun leaf_paths :: "t_color_node \<Rightarrow> dir list list" where
  "leaf_paths Null = []"
| "leaf_paths (Node m c cid l r) =
     (if l \<noteq> Null \<and> r \<noteq> Null
      then map ((#) L) (leaf_paths l) @ map ((#) R) (leaf_paths r)
      else [[]])"

definition leaves_of :: "t_color_node \<Rightarrow> t_color_node list" where
  "leaves_of t = map (node_at t) (leaf_paths t)"

fun max_id :: "t_color_node \<Rightarrow> int" where
  "max_id Null = 0"
| "max_id (Node m c cid l r) = max (uint cid) (max (max_id l) (max_id r))"

fun top_eigenvalue :: "eigen_fn \<Rightarrow> t_color_node \<Rightarrow> real option" where
  "top_eigenvalue eigen Null = None"
| "top_eigenvalue eigen (Node m c cid l r) = fst (eigen c)"

text \<open>
  The leaves a queue of the breadth-first search still has to visit, each with its
  pointer, and the relation between the arguments of the search loop and its result:
  either no leaf of the queue beats \<open>mx\<close> and the result is the \<open>ret\<close> passed in, or the
  result is a leaf of the queue whose eigenvalue beats \<open>mx\<close> and is the largest.
\<close>

definition entries :: "(dir list \<times> t_color_node) list \<Rightarrow> (dir list \<times> t_color_node) set" where
  "entries queue = (\<Union>(p, t) \<in> set queue. (\<lambda>q. (p @ q, node_at t q)) ` set (leaf_paths t))"

definition loop_post :: "eigen_fn \<Rightarrow> (dir list \<times> t_color_node) set \<Rightarrow> real \<Rightarrow> dir list
    \<Rightarrow> dir list \<Rightarrow> bool" where
  "loop_post eigen E mx ret res =
     ((res = ret \<and> (\<forall>(p, n) \<in> E. \<forall>v. top_eigenvalue eigen n = Some v \<longrightarrow> v \<le> mx))
      \<or> (\<exists>(p, n) \<in> E. \<exists>v. res = p \<and> top_eigenvalue eigen n = Some v \<and> mx < v
            \<and> (\<forall>(p', n') \<in> E. \<forall>v'. top_eigenvalue eigen n' = Some v' \<longrightarrow> v' \<le> v)))"

subsection \<open>The two buffers side by side\<close>

text \<open>
  Each pixel with the id the classification buffer holds for it, in scan order, and the
  id \<open>partition_class\<close> writes for such a pair.
\<close>

definition paired :: "image \<Rightarrow> class_buffer \<Rightarrow> (vec3b \<times> uchar) list" where
  "paired img classes = concat (map (\<lambda>(ptr, ptrClass). zip ptr ptrClass) (zip img classes))"

fun relabel :: "(vec3b \<Rightarrow> bool) \<Rightarrow> uchar \<Rightarrow> uchar \<Rightarrow> uchar \<Rightarrow> vec3b \<times> uchar \<Rightarrow> uchar" where
  "relabel lft cid newidleft newidright (color, c) =
     (if c \<noteq> cid then c else if lft color then newidleft else newidright)"

subsection \<open>What \<open>cv::eigen\<close> is assumed to do\<close>

text \<open>
  The matrices of non-empty classes are symmetric and positive semidefinite. Of the
  eigen-decomposition the proofs below use one property only: on such a matrix the top
  eigenvalue it returns is a number above \<open>-1\<close> (mathematically it is at least 0).
\<close>

fun symmetric :: "mat3 \<Rightarrow> bool" where
  "symmetric ((a00, a01, a02), (a10, a11, a12), (a20, a21, a22)) =
     (a01 = a10 \<and> a02 = a20 \<and> a12 = a21)"

fun mat_vec :: "mat3 \<Rightarrow> vec3 \<Rightarrow> vec3" where
  "mat_vec (r0, r1, r2) v = (dot r0 v, dot r1 v, dot r2 v)"

definition quad_form :: "mat3 \<Rightarrow> vec3 \<Rightarrow> real" where
  "quad_form M v = dot v (mat_vec M v)"

definition psd :: "mat3 \<Rightarrow> bool" where
  "psd M = (\<forall>v. 0 \<le> quad_form M v)"

definition good_cov :: "mat3 option \<Rightarrow> bool" where
  "good_cov c = (\<exists>C. c = Some C \<and> symmetric C \<and> psd C)"

definition eigen_ok :: "eigen_fn \<Rightarrow> bool" where
  "eigen_ok eigen =
     (\<forall>C. symmetric C \<and> psd C \<longrightarrow> (\<exists>v. fst (eigen (Some C)) = Some v \<and> - 1 < v))"

subsection \<open>Runs\<close>

text \<open>
  The state of \<open>find_dominant_colors\<close> after \<open>k\<close> passes of its loop, the shape of a tree
  in which every node has two children or none, and the invariant of the loop: the two
  buffers have the same shape, the root exists, and every id in the classification buffer
  is the id of a leaf whose stored matrix is symmetric and positive semidefinite.
\<close>

definition run_state :: "eigen_fn \<Rightarrow> image \<Rightarrow> nat \<Rightarrow> image \<times> class_buffer \<times> t_color_node" where
  "run_state eigen img k = (split_step eigen ^^ k) (initial_state img)"

fun two_or_none :: "t_color_node \<Rightarrow> bool" where
  "two_or_none Null = True"
| "two_or_none (Node m c cid l r) = ((l = Null \<longleftrightarrow> r = Null) \<and> two_or_none l \<and> two_or_none r)"

definition run_inv :: "image \<Rightarrow> image \<times> class_buffer \<times> t_color_node \<Rightarrow> bool" where
  "run_inv img0 s =
     (case s of (img, classes, tree) \<Rightarrow>
        img = img0 \<and> map length classes = map length img \<and> tree \<noteq> Null \<and> two_or_none tree
        \<and> (\<forall>c \<in> set (concat classes). \<exists>p \<in> set (leaf_paths tree).
               classid (node_at tree p) = c \<and> good_cov (covariance (node_at tree p))))"

subsection \<open>A sample eigen-decomposition\<close>

text \<open>
  For concrete runs: the largest diagonal entry and the unit vector of its coordinate.
  On a diagonal matrix this is the top eigenvalue with its eigenvector, and the images
  used below vary in one channel only, so that every matrix of their runs is diagonal.
  A NaN matrix gives NaN.
\<close>

definition eigen_diag :: eigen_fn where
  "eigen_diag c =
     (case c of
        None \<Rightarrow> (None, None)
      | Some ((a00, a01, a02), (a10, a11, a12), (a20, a21, a22)) \<Rightarrow>
          if a11 \<le> a00 \<and> a22 \<le> a00 then (Some a00, Some (1, 0, 0))
          else if a22 \<le> a11 then (Some a11, Some (0, 1, 0))
          else (Some a22, Some (0, 0, 1)))"

subsection \<open>The mean of a colour channel\<close>


subsection \<open>The ids a split assigns\<close>

text \<open>
  The ids of the two children that one pass of the loop hangs below the node it selected,
  read off the tree after the pass.
\<close>

definition new_ids :: "eigen_fn \<Rightarrow> image \<times> class_buffer \<times> t_color_node \<Rightarrow> uchar \<times> uchar" where
  "new_ids eigen s =
     (case s of (img, classes, tree) \<Rightarrow>
        (let node = get_max_eigenvalue_node eigen tree;
             tree' = snd (snd (split_step eigen s))
         in (classid (node_at tree' (node @ [L])), classid (node_at tree' (node @ [R])))))"

subsection \<open>Runs on a 1x1 image\<close>

text \<open>
  What every state after the first split looks like when the image is the one pixel
  (7, 7, 7) and the decomposition is \<open>eigen_diag\<close>: the pixel has the id \<open>c\<close>, one leaf
  has that id and the statistics of the pixel, and every other leaf has NaN statistics.
\<close>

definition one_pixel_inv :: "uchar \<Rightarrow> image \<times> class_buffer \<times> t_color_node \<Rightarrow> bool" where
  "one_pixel_inv c s =
     (\<exists>tree p. s = ([[(7, 7, 7)]], [[c]], tree) \<and> p \<in> set (leaf_paths tree)
        \<and> node_at tree p =
            Node (Some (7 / 255, 7 / 255, 7 / 255)) (Some ((0, 0, 0), (0, 0, 0), (0, 0, 0))) c
              Null Null
        \<and> (\<forall>q \<in> set (leaf_paths tree). q \<noteq> p \<longrightarrow> covariance (node_at tree q) = None))"

subsection \<open>Two runs\<close>




section \<open>The class-id visualisation\<close>

lemma viewable_row_fst:
  "fst (viewable_row r) =
     map (\<lambda>c. if 18 \<le> uint c then (0, 0, 0) else palette ! nat (uint c)) r"
  by (induction r) (auto simp: max_color_count_def split: prod.splits)

lemma viewable_row_snd:
  "snd (viewable_row r) = replicate (length (filter (\<lambda>c. 18 \<le> uint c) r)) palette_message"
  by (induction r) (auto simp: max_color_count_def split: prod.splits)

lemma get_viewable_image_fst:
  "fst (get_viewable_image classes) =
     map (map (\<lambda>c. if 18 \<le> uint c then (0, 0, 0) else palette ! nat (uint c))) classes"
  by (induction classes) (auto simp: viewable_row_fst [symmetric] split: prod.splits)

lemma get_viewable_image_snd:
  "snd (get_viewable_image classes) =
     replicate (length (filter (\<lambda>c. 18 \<le> uint c) (concat classes))) palette_message"
proof (induction classes)
  case Nil
  show ?case by simp
next
  case (Cons r classes)
  have "snd (get_viewable_image (r # classes)) =
          snd (viewable_row r) @ snd (get_viewable_image classes)"
    by (simp split: prod.splits)
  then show ?case
    by (simp add: Cons viewable_row_snd replicate_add)
qed

text \<open>
  C9. \<open>get_viewable_image\<close> always returns an image of the shape of \<open>classes\<close>. A pixel
  whose id is below 18 gets the palette entry of its id; a pixel whose id is 18 or more
  is skipped and keeps the initial black, and the function prints its message once for
  each such pixel. No input makes the function fail.
\<close>

theorem get_viewable_image_palette:
  "get_viewable_image classes =
     (map (map (\<lambda>c. if 18 \<le> uint c then (0, 0, 0) else palette ! nat (uint c))) classes,
      replicate (length (filter (\<lambda>c. 18 \<le> uint c) (concat classes))) palette_message)"
  using get_viewable_image_fst [of classes] get_viewable_image_snd [of classes]
  by (cases "get_viewable_image classes") simp

theorem get_viewable_image_palette_witness:
  "get_viewable_image [[1, 18], [200, 17]] =
     ([[(255, 0, 0), (0, 0, 0)], [(0, 0, 0), (32, 128, 32)]],
      [palette_message, palette_message])"
  using get_viewable_image_palette [of "[[1, 18], [200, 17]]"]
  by (simp add: palette_def)

section \<open>The statistics of a class\<close>

lemma vadd_assoc: "vadd (vadd a b) c = vadd a (vadd b c)"
  by (cases a; cases b; cases c) simp

lemma vadd_zero: "vadd a zero_vec = a"
  by (cases a) (simp add: zero_vec_def)

lemma vadd_zero_left: "vadd zero_vec a = a"
  by (cases a) (simp add: zero_vec_def)

lemma madd_assoc: "madd (madd a b) c = madd a (madd b c)"
  by (cases a; cases b; cases c) (simp add: vadd_assoc)

lemma madd_zero: "madd a zero_mat = a"
  by (cases a) (simp add: zero_mat_def vadd_zero [unfolded zero_vec_def])

lemma madd_zero_left: "madd zero_mat a = a"
  by (cases a) (simp add: zero_mat_def vadd_zero_left [unfolded zero_vec_def])

lemma vsum_append: "vsum (xs @ ys) = vadd (vsum xs) (vsum ys)"
  by (induction xs) (simp_all add: vadd_assoc vadd_zero_left)

lemma outer_sum_append: "outer_sum (xs @ ys) = madd (outer_sum xs) (outer_sum ys)"
  by (induction xs) (simp_all add: madd_assoc madd_zero_left)

text \<open>The inner loop adds the pixels of the class in one row to the three accumulators.\<close>

lemma accumulate_row_sums:
  "accumulate_row cid ptr ptrClass (s, c, n) =
     (let xs = map (\<lambda>(color, c). scaled color)
                 (filter (\<lambda>(color, c). c = cid) (zip ptr ptrClass))
      in (vadd s (vsum xs), madd c (outer_sum xs), n + real (length xs)))"
proof (induction cid ptr ptrClass "(s, c, n)" arbitrary: s c n rule: accumulate_row.induct)
  case (1 cid ptrClass)
  show ?case by (simp add: vadd_zero madd_zero)
next
  case (2 cid color ptr)
  show ?case by (simp add: vadd_zero madd_zero)
next
  case (3 cid color ptr c' ptrClass msum cov pixcount)
  show ?case
  proof (cases "c' = cid")
    case True
    then show ?thesis
      using 3(1) [of "vadd msum (scaled color)"
                     "madd cov (outer (scaled color) (scaled color))" "pixcount + 1"]
      by (simp add: Let_def vadd_assoc madd_assoc)
  next
    case False
    then show ?thesis
      using 3(1) [of msum cov pixcount]
      by (simp add: Let_def)
  qed
qed

lemma accumulate_rows_sums:
  "accumulate_rows cid img classes (s, c, n) =
     (vadd s (vsum (class_pixels cid img classes)),
      madd c (outer_sum (class_pixels cid img classes)),
      n + real (length (class_pixels cid img classes)))"
proof (induction cid img classes "(s, c, n)" arbitrary: s c n rule: accumulate_rows.induct)
  case (1 cid classes)
  show ?case by (simp add: class_pixels_def vadd_zero madd_zero)
next
  case (2 cid ptr img)
  show ?case by (simp add: class_pixels_def vadd_zero madd_zero)
next
  case (3 cid ptr img ptrClass classes)
  define xs where "xs = map (\<lambda>(color, c). scaled color)
                          (filter (\<lambda>(color, c). c = cid) (zip ptr ptrClass))"
  have split: "class_pixels cid (ptr # img) (ptrClass # classes)
                 = xs @ class_pixels cid img classes"
    by (simp add: class_pixels_def xs_def)
  have row: "accumulate_row cid ptr ptrClass (s, c, n) =
               (vadd s (vsum xs), madd c (outer_sum xs), n + real (length xs))"
    by (simp add: accumulate_row_sums xs_def Let_def)
  show ?case
    using 3 [OF row]
    by (simp add: row split vsum_append outer_sum_append vadd_assoc madd_assoc)
qed

lemma get_class_mean_cov_nonempty:
  assumes "class_pixels cid img classes \<noteq> []"
  shows "get_class_mean_cov img classes (Node m c cid l r) =
           Node (Some (spec_mean (class_pixels cid img classes)))
                (Some (scatter (class_pixels cid img classes))) cid l r"
  using assms
  by (simp add: accumulate_rows_sums vadd_zero_left madd_zero_left spec_mean_def scatter_def)


lemma scatter_scaled_covariance:
  assumes "xs \<noteq> []"
  shows "scatter xs = mscale (real (length xs)) (spec_covariance xs)"
proof -
  obtain s0 s1 s2 where s: "vsum xs = (s0, s1, s2)"
    by (cases "vsum xs") auto
  obtain a0 a1 a2 b0 b1 b2 c0 c1 c2
    where o: "outer_sum xs = ((a0, a1, a2), (b0, b1, b2), (c0, c1, c2))"
    by (cases "outer_sum xs") auto
  have n: "real (length xs) \<noteq> 0"
    using assms by simp
  show ?thesis
    using n by (simp add: scatter_def spec_covariance_def spec_mean_def s o field_simps)
qed

text \<open>
  C1, as the code has it. For a class with at least one pixel, \<open>get_class_mean_cov\<close>
  stores \<open>mean = sum / pixelCount\<close> over exactly the pixels whose classification id is
  the node's id, and stores as \<open>covariance\<close> the matrix
  \<open>sumOuterProduct - sum * sum\<^sup>t / pixelCount\<close>. That matrix is \<open>pixelCount\<close> times the
  centred second moment \<open>(sumOuterProduct / pixelCount) - mean * mean\<^sup>t\<close>, not the
  centred second moment itself. The id and the children of the node are kept.
\<close>

theorem get_class_mean_cov_scatter:
  assumes "class_pixels cid img classes \<noteq> []"
  shows "get_class_mean_cov img classes (Node m c cid l r) =
           Node (Some (spec_mean (class_pixels cid img classes)))
                (Some (scatter (class_pixels cid img classes))) cid l r
         \<and> scatter (class_pixels cid img classes) =
             mscale (real (length (class_pixels cid img classes)))
               (spec_covariance (class_pixels cid img classes))"
  using get_class_mean_cov_nonempty [OF assms] scatter_scaled_covariance [OF assms]
  by simp

theorem get_class_mean_cov_scatter_witness:
  "class_pixels 1 [[(0, 0, 0), (255, 0, 0)]] [[1, 1]] \<noteq> []
   \<and> get_class_mean_cov [[(0, 0, 0), (255, 0, 0)]] [[1, 1]] (Node None None 1 Null Null) =
       Node (Some (1 / 2, 0, 0)) (Some ((1 / 2, 0, 0), (0, 0, 0), (0, 0, 0))) 1 Null Null"
proof -
  have h: "class_pixels 1 [[(0, 0, 0), (255, 0, 0)]] [[1, 1]] \<noteq> []"
    by (simp add: class_pixels_def)
  have v: "class_pixels 1 [[(0, 0, 0), (255, 0, 0)]] [[1, 1]] = [(0, 0, 0), (1, 0, 0)]"
    by (simp add: class_pixels_def)
  show ?thesis
    using h get_class_mean_cov_scatter [OF h, of None None Null Null, THEN conjunct1]
    by (simp add: v spec_mean_def scatter_def zero_vec_def zero_mat_def)
qed

text \<open>
  C1, as the specification words it, fails: on two pixels that differ, the stored
  matrix is not the centred second moment of the class.
\<close>

theorem get_class_mean_cov_not_centered_moment:
  "covariance (get_class_mean_cov [[(0, 0, 0), (255, 0, 0)]] [[1, 1]]
                 (Node None None 1 Null Null))
   \<noteq> Some (spec_covariance (class_pixels 1 [[(0, 0, 0), (255, 0, 0)]] [[1, 1]]))"
  by (simp add: class_pixels_def spec_covariance_def spec_mean_def zero_vec_def zero_mat_def)

section \<open>The tree traversals\<close>

lemma max_id_nonneg: "0 \<le> max_id t"
  by (induction t) auto

lemma foldr_max_shift:
  "foldr (\<lambda>t. max (max_id t)) q (max a b) = max a (foldr (\<lambda>t. max (max_id t)) q b)"
  by (induction q) (auto simp: max.left_commute)

lemma foldr_max_ge: "a \<le> foldr (\<lambda>t. max (max_id t)) q a"
  by (induction q) (auto simp: max.coboundedI2)

lemma next_classid_loop_eq:
  "0 \<le> maxid \<Longrightarrow> next_classid_loop queue maxid = foldr (\<lambda>t. max (max_id t)) queue maxid"
proof (induction queue maxid rule: next_classid_loop.induct)
  case (1 maxid)
  show ?case by simp
next
  case (2 queue maxid)
  then show ?case
    using foldr_max_ge [of maxid queue] by simp
next
  case (3 m c cid l r queue maxid)
  let ?m' = "if uint cid > maxid then uint cid else maxid"
  have m': "?m' = max (uint cid) maxid" "0 \<le> ?m'"
    using 3(2) by (auto simp: max_def)
  have kids: "foldr (\<lambda>t. max (max_id t))
                ((if l \<noteq> Null then [l] else []) @ (if r \<noteq> Null then [r] else [])) ?m'
              = max (max_id (Node m c cid l r)) maxid"
    using 3(2) by (auto simp: max_def)
  have "next_classid_loop (Node m c cid l r # queue) maxid =
          foldr (\<lambda>t. max (max_id t))
            (queue @ (if l \<noteq> Null then [l] else []) @ (if r \<noteq> Null then [r] else [])) ?m'"
    using 3(1) [OF m'(2)] by simp
  also have "\<dots> = foldr (\<lambda>t. max (max_id t)) queue (max (max_id (Node m c cid l r)) maxid)"
    using kids by (simp only: foldr_append)
  also have "\<dots> = max (max_id (Node m c cid l r)) (foldr (\<lambda>t. max (max_id t)) queue maxid)"
    by (rule foldr_max_shift)
  finally show ?case by simp
qed

lemma get_next_classid_max_id: "get_next_classid t = max_id t + 1"
  using max_id_nonneg [of t] by (simp add: get_next_classid_def next_classid_loop_eq)

lemma leaves_of_Node:
  "leaves_of (Node m c cid l r) =
     (if l \<noteq> Null \<and> r \<noteq> Null then leaves_of l @ leaves_of r else [Node m c cid l r])"
  by (simp add: leaves_of_def comp_def)

lemma leaves_of_Null: "leaves_of Null = []"
  by (simp add: leaves_of_def)

lemma get_leaves_loop_length:
  "length (get_leaves_loop queue acc) =
     length acc + sum_list (map (\<lambda>t. length (leaf_paths t)) queue)"
  by (induction queue acc rule: get_leaves_loop.induct) auto

lemma get_leaves_loop_set:
  "set (get_leaves_loop queue acc) = set acc \<union> (\<Union>t \<in> set queue. set (leaves_of t))"
  by (induction queue acc rule: get_leaves_loop.induct)
     (auto simp: leaves_of_Node leaves_of_Null)

lemma get_leaves_length: "length (get_leaves t) = length (leaf_paths t)"
  by (simp add: get_leaves_def get_leaves_loop_length)

lemma get_leaves_set: "set (get_leaves t) = set (leaves_of t)"
  by (simp add: get_leaves_def get_leaves_loop_set)


lemma entries_Nil: "entries [] = {}"
  by (simp add: entries_def)

lemma entries_append: "entries (a @ b) = entries a \<union> entries b"
  by (simp add: entries_def)

lemma entries_Cons: "entries (x # q) = entries [x] \<union> entries q"
  by (simp add: entries_def)

lemma entries_Null: "entries [(p, Null)] = {}"
  by (simp add: entries_def)

lemma entries_leaf:
  "\<not> (l \<noteq> Null \<and> r \<noteq> Null) \<Longrightarrow> entries [(p, Node m c cid l r)] = {(p, Node m c cid l r)}"
  by (auto simp: entries_def)

lemma entries_inner:
  "l \<noteq> Null \<and> r \<noteq> Null \<Longrightarrow>
     entries [(p, Node m c cid l r)] = entries [(p @ [L], l), (p @ [R], r)]"
  by (auto simp: entries_def image_iff)

lemma loop_postI1:
  "res = ret \<Longrightarrow> (\<And>p n v. (p, n) \<in> E \<Longrightarrow> top_eigenvalue eigen n = Some v \<Longrightarrow> v \<le> mx)
     \<Longrightarrow> loop_post eigen E mx ret res"
  unfolding loop_post_def by blast

lemma loop_postI2:
  "(p, n) \<in> E \<Longrightarrow> res = p \<Longrightarrow> top_eigenvalue eigen n = Some v \<Longrightarrow> mx < v
     \<Longrightarrow> (\<And>p' n' v'. (p', n') \<in> E \<Longrightarrow> top_eigenvalue eigen n' = Some v' \<Longrightarrow> v' \<le> v)
     \<Longrightarrow> loop_post eigen E mx ret res"
  unfolding loop_post_def by blast

lemma loop_postE:
  assumes "loop_post eigen E mx ret res"
  obtains (keep) "res = ret"
      "\<And>p n v. (p, n) \<in> E \<Longrightarrow> top_eigenvalue eigen n = Some v \<Longrightarrow> v \<le> mx"
  | (found) p n v where "(p, n) \<in> E" "res = p" "top_eigenvalue eigen n = Some v" "mx < v"
      "\<And>p' n' v'. (p', n') \<in> E \<Longrightarrow> top_eigenvalue eigen n' = Some v' \<Longrightarrow> v' \<le> v"
  using assms unfolding loop_post_def by blast

lemma post_insert_none:
  assumes "top_eigenvalue eigen n = None" and "loop_post eigen E mx ret res"
  shows "loop_post eigen (insert (p, n) E) mx ret res"
  using assms(2)
proof (cases rule: loop_postE)
  case keep
  show ?thesis
    by (rule loop_postI1 [OF keep(1)]) (use assms(1) keep(2) in auto)
next
  case (found p' n' v)
  show ?thesis
    by (rule loop_postI2 [of p' n', OF _ found(2,3,4)]) (use assms(1) found(1,5) in auto)
qed

lemma post_insert_le:
  assumes "top_eigenvalue eigen n = Some val" and "val \<le> mx"
    and "loop_post eigen E mx ret res"
  shows "loop_post eigen (insert (p, n) E) mx ret res"
  using assms(3)
proof (cases rule: loop_postE)
  case keep
  show ?thesis
    by (rule loop_postI1 [OF keep(1)]) (use assms(1,2) keep(2) in auto)
next
  case (found p' n' v)
  have "val \<le> v" using assms(2) found(4) by simp
  then show ?thesis
    by (intro loop_postI2 [of p' n', OF _ found(2,3,4)]) (use assms(1) found(1,5) in auto)
qed

lemma post_insert_gt:
  assumes "top_eigenvalue eigen n = Some val" and "mx < val"
    and "loop_post eigen E val p res"
  shows "loop_post eigen (insert (p, n) E) mx ret res"
  using assms(3)
proof (cases rule: loop_postE)
  case keep
  show ?thesis
    by (rule loop_postI2 [of p n, OF _ keep(1) assms(1,2)]) (use assms(1) keep(2) in auto)
next
  case (found p' n' v)
  have "mx < v" "val \<le> v" using assms(2) found(4) by simp_all
  then show ?thesis
    by (intro loop_postI2 [of p' n', OF _ found(2,3)]) (use assms(1) found(1,5) in auto)
qed

lemma max_eigenvalue_loop_post:
  "loop_post eigen (entries queue) max_eigen ret (max_eigenvalue_loop eigen queue max_eigen ret)"
proof (induction eigen queue max_eigen ret rule: max_eigenvalue_loop.induct)
  case (1 eigen max_eigen ret)
  show ?case by (simp add: entries_Nil loop_post_def)
next
  case (2 eigen p queue max_eigen ret)
  have "entries ((p, Null) # queue) = entries queue"
    using entries_Cons [of "(p, Null)" queue] by (simp add: entries_Null)
  with 2 show ?case by simp
next
  case (3 eigen p m c cid l r queue max_eigen ret)
  show ?case
  proof (cases "l \<noteq> Null \<and> r \<noteq> Null")
    case True
    have "entries ((p, Node m c cid l r) # queue) = entries (queue @ [(p @ [L], l), (p @ [R], r)])"
      using entries_Cons [of "(p, Node m c cid l r)" queue] entries_inner [OF True, of p m c cid]
      by (simp only: entries_append Un_commute)
    with 3(1) [OF True] True show ?thesis by simp
  next
    case False
    have E: "entries ((p, Node m c cid l r) # queue) = insert (p, Node m c cid l r) (entries queue)"
      using entries_Cons [of "(p, Node m c cid l r)" queue] entries_leaf [OF False, of p m c cid]
      by simp
    have top: "top_eigenvalue eigen (Node m c cid l r) = fst (eigen c)"
      by simp
    show ?thesis
    proof (cases "fst (eigen c)")
      case None
      have eq: "max_eigenvalue_loop eigen ((p, Node m c cid l r) # queue) max_eigen ret
                  = max_eigenvalue_loop eigen queue max_eigen ret"
        using False None by auto
      show ?thesis
        unfolding eq E
        by (rule post_insert_none [OF _ 3(2) [OF False None]]) (simp add: None)
    next
      case (Some val)
      show ?thesis
      proof (cases "val > max_eigen")
        case True
        have eq: "max_eigenvalue_loop eigen ((p, Node m c cid l r) # queue) max_eigen ret
                    = max_eigenvalue_loop eigen queue val p"
          using False Some True by auto
        show ?thesis
          unfolding eq E
          by (rule post_insert_gt [OF _ True 3(3) [OF False Some True]]) (simp add: Some)
      next
        case notgt: False
        have eq: "max_eigenvalue_loop eigen ((p, Node m c cid l r) # queue) max_eigen ret
                    = max_eigenvalue_loop eigen queue max_eigen ret"
          using False Some notgt by auto
        have le: "val \<le> max_eigen" using notgt by simp
        show ?thesis
          unfolding eq E
          by (rule post_insert_le [OF _ le 3(4) [OF False Some notgt]]) (simp add: Some)
      qed
    qed
  qed
qed

lemma entries_root: "entries [([], t)] = (\<lambda>q. (q, node_at t q)) ` set (leaf_paths t)"
  by (simp add: entries_def)

section \<open>Writing through a pointer\<close>

lemma modify_at_append: "modify_at (p @ q) f t = modify_at p (modify_at q f) t"
  by (induction p f t rule: modify_at.induct) auto

lemma modify_at_twice: "modify_at p f (modify_at p g t) = modify_at p (\<lambda>x. f (g x)) t"
  by (induction p g t rule: modify_at.induct) auto

lemma modify_at_cong:
  "f (node_at t p) = g (node_at t p) \<Longrightarrow> modify_at p f t = modify_at p g t"
  by (induction t p rule: node_at.induct) auto

lemma node_at_modify_at:
  "node_at t p \<noteq> Null \<Longrightarrow> node_at (modify_at p f t) (p @ q) = node_at (f (node_at t p)) q"
  by (induction t p rule: node_at.induct) auto

lemma node_at_leaf_path: "p \<in> set (leaf_paths t) \<Longrightarrow> node_at t p \<noteq> Null"
  by (induction t arbitrary: p) (auto split: if_splits)

lemma modify_at_not_Null:
  "t \<noteq> Null \<Longrightarrow> N \<noteq> Null \<Longrightarrow> modify_at p (\<lambda>x. N) t \<noteq> Null"
  by (induction p "\<lambda>x::t_color_node. N" t rule: modify_at.induct) auto

lemma leaf_paths_graft_set:
  "p \<in> set (leaf_paths t) \<Longrightarrow> N \<noteq> Null \<Longrightarrow>
     set (leaf_paths (modify_at p (\<lambda>x. N) t)) =
       (set (leaf_paths t) - {p}) \<union> (@) p ` set (leaf_paths N)"
proof (induction t arbitrary: p)
  case Null
  then show ?case by simp
next
  case (Node m c cid l r)
  show ?case
  proof (cases "l \<noteq> Null \<and> r \<noteq> Null")
    case False
    with Node.prems have "p = []" by auto
    with False show ?thesis by auto
  next
    case True
    with Node.prems consider (left) p' where "p = L # p'" "p' \<in> set (leaf_paths l)"
      | (right) p' where "p = R # p'" "p' \<in> set (leaf_paths r)"
      by auto
    then show ?thesis
    proof cases
      case left
      have nn: "modify_at p' (\<lambda>x. N) l \<noteq> Null"
        using True Node.prems(2) by (simp add: modify_at_not_Null)
      show ?thesis
        using True nn Node.IH(1) [OF left(2) Node.prems(2)] left
        by (auto simp: image_Un image_image)
    next
      case right
      have nn: "modify_at p' (\<lambda>x. N) r \<noteq> Null"
        using True Node.prems(2) by (simp add: modify_at_not_Null)
      show ?thesis
        using True nn Node.IH(2) [OF right(2) Node.prems(2)] right
        by (auto simp: image_Un image_image)
    qed
  qed
qed

lemma leaf_paths_graft_length:
  "p \<in> set (leaf_paths t) \<Longrightarrow> N \<noteq> Null \<Longrightarrow>
     length (leaf_paths (modify_at p (\<lambda>x. N) t)) + 1 =
       length (leaf_paths t) + length (leaf_paths N)"
proof (induction t arbitrary: p)
  case Null
  then show ?case by simp
next
  case (Node m c cid l r)
  show ?case
  proof (cases "l \<noteq> Null \<and> r \<noteq> Null")
    case False
    with Node.prems have "p = []" by auto
    with False show ?thesis by auto
  next
    case True
    with Node.prems consider (left) p' where "p = L # p'" "p' \<in> set (leaf_paths l)"
      | (right) p' where "p = R # p'" "p' \<in> set (leaf_paths r)"
      by auto
    then show ?thesis
    proof cases
      case left
      have nn: "modify_at p' (\<lambda>x. N) l \<noteq> Null"
        using True Node.prems(2) by (simp add: modify_at_not_Null)
      show ?thesis
        using True nn Node.IH(1) [OF left(2) Node.prems(2)] left
        by auto
    next
      case right
      have nn: "modify_at p' (\<lambda>x. N) r \<noteq> Null"
        using True Node.prems(2) by (simp add: modify_at_not_Null)
      show ?thesis
        using True nn Node.IH(2) [OF right(2) Node.prems(2)] right
        by auto
    qed
  qed
qed

lemma node_at_graft_other:
  "p \<in> set (leaf_paths t) \<Longrightarrow> q \<in> set (leaf_paths t) \<Longrightarrow> q \<noteq> p \<Longrightarrow>
     node_at (modify_at p f t) q = node_at t q"
proof (induction t arbitrary: p q)
  case Null
  then show ?case by simp
next
  case (Node m c cid l r)
  show ?case
  proof (cases "l \<noteq> Null \<and> r \<noteq> Null")
    case False
    with Node.prems show ?thesis by auto
  next
    case True
    with Node.prems show ?thesis
      using Node.IH by (auto split: if_splits) blast+
  qed
qed


lemma get_max_eigenvalue_node_post:
  assumes "t \<noteq> Null" and "\<not> (left t = Null \<and> right t = Null)"
  shows "loop_post eigen ((\<lambda>q. (q, node_at t q)) ` set (leaf_paths t)) (- 1) []
           (get_max_eigenvalue_node eigen t)"
proof -
  obtain m c cid l r where t: "t = Node m c cid l r"
    using assms(1) by (cases t) auto
  have "get_max_eigenvalue_node eigen t = max_eigenvalue_loop eigen [([], t)] (- 1) []"
    using assms(2) by (simp add: t)
  then show ?thesis
    using max_eigenvalue_loop_post [of eigen "[([], t)]" "- 1" "[]"]
    by (simp add: entries_root)
qed

lemma get_max_eigenvalue_node_valid:
  assumes "t \<noteq> Null"
  shows "node_at t (get_max_eigenvalue_node eigen t) \<noteq> Null"
proof (cases "left t = Null \<and> right t = Null")
  case True
  then show ?thesis using assms by (cases t) auto
next
  case False
  from get_max_eigenvalue_node_post [OF assms False, of eigen] show ?thesis
  proof (cases rule: loop_postE)
    case keep
    then show ?thesis using assms by simp
  next
    case (found p n v)
    then show ?thesis by (auto simp: node_at_leaf_path)
  qed
qed

lemma get_max_eigenvalue_node_maximal:
  assumes "q \<in> set (leaf_paths t)" and "top_eigenvalue eigen (node_at t q) = Some v"
    and "- 1 < v"
  shows "get_max_eigenvalue_node eigen t \<in> set (leaf_paths t)
         \<and> (\<exists>w. top_eigenvalue eigen (node_at t (get_max_eigenvalue_node eigen t)) = Some w
                \<and> - 1 < w
                \<and> (\<forall>q' \<in> set (leaf_paths t). \<forall>v'.
                      top_eigenvalue eigen (node_at t q') = Some v' \<longrightarrow> v' \<le> w))"
proof -
  have nn: "t \<noteq> Null" using assms(1) by auto
  show ?thesis
  proof (cases "left t = Null \<and> right t = Null")
    case True
    then obtain m c cid where t: "t = Node m c cid Null Null"
      using nn by (cases t) auto
    show ?thesis using assms by (auto simp: t)
  next
    case False
    from get_max_eigenvalue_node_post [OF nn False, of eigen] show ?thesis
    proof (cases rule: loop_postE)
      case keep
      have "v \<le> - 1"
        by (rule keep(2) [of q "node_at t q"]) (use assms in auto)
      with assms(3) show ?thesis by simp
    next
      case (found p n w)
      have p: "p \<in> set (leaf_paths t)" "n = node_at t p"
        using found(1) by auto
      have "\<forall>q' \<in> set (leaf_paths t). \<forall>v'.
              top_eigenvalue eigen (node_at t q') = Some v' \<longrightarrow> v' \<le> w"
        using found(5) by blast
      with p found(2,3,4) show ?thesis by auto
    qed
  qed
qed

lemma split_step_unfold:
  assumes "node_at tree (get_max_eigenvalue_node eigen tree) = Node m cov cid l r"
  shows "split_step eigen (img, classes, tree) =
     (img,
      partition_rows (goes_left (snd (eigen cov)) m) cid (word_of_int (max_id tree + 1))
        (word_of_int (max_id tree + 1) + 1) img classes,
      modify_at (get_max_eigenvalue_node eigen tree)
        (\<lambda>x. Node m cov cid
           (get_class_mean_cov img
              (partition_rows (goes_left (snd (eigen cov)) m) cid
                 (word_of_int (max_id tree + 1)) (word_of_int (max_id tree + 1) + 1)
                 img classes)
              (Node None None (word_of_int (max_id tree + 1)) Null Null))
           (get_class_mean_cov img
              (partition_rows (goes_left (snd (eigen cov)) m) cid
                 (word_of_int (max_id tree + 1)) (word_of_int (max_id tree + 1) + 1)
                 img classes)
              (Node None None (word_of_int (max_id tree + 1) + 1) Null Null)))
        tree)"
proof -
  define nxt where "nxt = get_max_eigenvalue_node eigen tree"
  define nl :: uchar where "nl = word_of_int (max_id tree + 1)"
  define cl where "cl = partition_rows (goes_left (snd (eigen cov)) m) cid nl (nl + 1) img classes"
  define g where "g = get_class_mean_cov img cl"
  define sc where "sc = set_children (set_classid nl new_t_color_node)
                                     (set_classid (nl + 1) new_t_color_node)"
  have at: "node_at tree nxt = Node m cov cid l r"
    using assms by (simp add: nxt_def)
  have step: "split_step eigen (img, classes, tree) =
      (img, cl, modify_at (nxt @ [R]) g (modify_at (nxt @ [L]) g (modify_at nxt sc tree)))"
    using at
    by (simp add: split_step_def partition_class_def Let_def nxt_def [symmetric]
        get_next_classid_max_id nl_def cl_def g_def sc_def)
  have "modify_at (nxt @ [R]) g (modify_at (nxt @ [L]) g (modify_at nxt sc tree)) =
        modify_at nxt (\<lambda>x. modify_at [R] g (modify_at [L] g (sc x))) tree"
    by (simp add: modify_at_append modify_at_twice)
  also have "\<dots> = modify_at nxt (\<lambda>x. Node m cov cid (g (Node None None nl Null Null))
                                           (g (Node None None (nl + 1) Null Null))) tree"
    by (rule modify_at_cong) (simp add: at sc_def new_t_color_node_def)
  finally have fin:
    "modify_at (nxt @ [R]) g (modify_at (nxt @ [L]) g (modify_at nxt sc tree)) =
       modify_at nxt (\<lambda>x. Node m cov cid (g (Node None None nl Null Null))
                                        (g (Node None None (nl + 1) Null Null))) tree" .
  show ?thesis
    unfolding step fin by (simp only: nxt_def nl_def g_def cl_def)
qed

section \<open>The split of the classification buffer\<close>

lemma class_pixels_paired:
  "class_pixels cid img classes =
     map (\<lambda>(color, c). scaled color) (filter (\<lambda>(color, c). c = cid) (paired img classes))"
  by (simp add: class_pixels_def paired_def)

lemma partition_row_length:
  "length (partition_row lft cid nl nr ptr ptrClass) = length ptrClass"
  by (induction lft cid nl nr ptr ptrClass rule: partition_row.induct) auto

lemma partition_rows_length:
  "length (partition_rows lft cid nl nr img classes) = length classes"
  by (induction lft cid nl nr img classes rule: partition_rows.induct) auto

lemma partition_rows_shape:
  "map length (partition_rows lft cid nl nr img classes) = map length classes"
  by (induction lft cid nl nr img classes rule: partition_rows.induct)
     (auto simp: partition_row_length)

lemma partition_row_frame:
  "x < length ptrClass \<Longrightarrow> ptrClass ! x \<noteq> cid \<Longrightarrow>
     partition_row lft cid nl nr ptr ptrClass ! x = ptrClass ! x"
proof (induction lft cid nl nr ptr ptrClass arbitrary: x rule: partition_row.induct)
  case (3 lft cid nl nr color ptr c ptrClass)
  then show ?case by (cases x) auto
qed auto

lemma partition_rows_frame:
  "y < length classes \<Longrightarrow> x < length (classes ! y) \<Longrightarrow> classes ! y ! x \<noteq> cid \<Longrightarrow>
     partition_rows lft cid nl nr img classes ! y ! x = classes ! y ! x"
proof (induction lft cid nl nr img classes arbitrary: y rule: partition_rows.induct)
  case (3 lft cid nl nr ptr img ptrClass classes)
  then show ?case by (cases y) (auto simp: partition_row_frame)
qed auto

lemma partition_row_zip:
  "length ptr = length ptrClass \<Longrightarrow>
     partition_row lft cid nl nr ptr ptrClass = map (relabel lft cid nl nr) (zip ptr ptrClass)"
  by (induction lft cid nl nr ptr ptrClass rule: partition_row.induct) auto

lemma partition_rows_zip:
  "map length classes = map length img \<Longrightarrow>
     partition_rows lft cid nl nr img classes =
       map (\<lambda>(ptr, ptrClass). map (relabel lft cid nl nr) (zip ptr ptrClass)) (zip img classes)"
  by (induction lft cid nl nr img classes rule: partition_rows.induct)
     (auto simp: partition_row_zip)

lemma concat_partition_rows:
  "map length classes = map length img \<Longrightarrow>
     concat (partition_rows lft cid nl nr img classes) =
       map (relabel lft cid nl nr) (paired img classes)"
  by (induction lft cid nl nr img classes rule: partition_rows.induct)
     (auto simp: partition_row_zip paired_def)

lemma zip_map_relabel:
  "length ptr = length ptrClass \<Longrightarrow>
     zip ptr (map f (zip ptr ptrClass)) = map (\<lambda>pc. (fst pc, f pc)) (zip ptr ptrClass)"
  by (induction ptr ptrClass rule: list_induct2) auto

lemma paired_partition_rows:
  "map length classes = map length img \<Longrightarrow>
     paired img (partition_rows lft cid nl nr img classes) =
       map (\<lambda>pc. (fst pc, relabel lft cid nl nr pc)) (paired img classes)"
  by (induction lft cid nl nr img classes rule: partition_rows.induct)
     (auto simp: partition_row_zip paired_def zip_map_relabel)

lemma map_snd_paired:
  "map length classes = map length img \<Longrightarrow> map snd (paired img classes) = concat classes"
proof (induction img arbitrary: classes)
  case Nil
  then show ?case by (simp add: paired_def)
next
  case (Cons ptr img)
  then obtain ptrClass classes' where c: "classes = ptrClass # classes'"
    by (cases classes) auto
  with Cons show ?case by (simp add: paired_def)
qed

lemma map_fst_paired:
  "map length classes = map length img \<Longrightarrow> map fst (paired img classes) = concat img"
proof (induction img arbitrary: classes)
  case Nil
  then show ?case by (simp add: paired_def)
next
  case (Cons ptr img)
  then obtain ptrClass classes' where c: "classes = ptrClass # classes'"
    by (cases classes) auto
  with Cons show ?case by (simp add: paired_def)
qed

lemma class_pixels_nonempty:
  assumes "map length classes = map length img" and "c \<in> set (concat classes)"
  shows "class_pixels c img classes \<noteq> []"
proof -
  from assms obtain color where "(color, c) \<in> set (paired img classes)"
    using map_snd_paired [OF assms(1)] by (metis (no_types) imageE set_map prod.collapse)
  then have "filter (\<lambda>(color, c'). c' = c) (paired img classes) \<noteq> []"
    by (force simp: filter_empty_conv)
  then show ?thesis by (simp add: class_pixels_paired)
qed

section \<open>The stored matrix is symmetric and positive semidefinite\<close>

lemma mat3_cases:
  obtains a00 a01 a02 a10 a11 a12 a20 a21 a22 :: real
  where "M = ((a00, a01, a02), (a10, a11, a12), (a20, a21, a22))"
proof -
  obtain r0 r1 r2 :: vec3 where M: "M = (r0, r1, r2)"
    by (cases M) auto
  obtain a00 a01 a02 where r0: "r0 = (a00, a01, a02)" by (cases r0) auto
  obtain a10 a11 a12 where r1: "r1 = (a10, a11, a12)" by (cases r1) auto
  obtain a20 a21 a22 where r2: "r2 = (a20, a21, a22)" by (cases r2) auto
  show thesis using that [of a00 a01 a02 a10 a11 a12 a20 a21 a22] by (simp add: M r0 r1 r2)
qed

lemma quad_outer: "quad_form (outer x x) v = (dot v x)\<^sup>2"
  by (cases x; cases v) (simp add: quad_form_def power2_eq_square algebra_simps)

lemma quad_madd: "quad_form (madd A B) v = quad_form A v + quad_form B v"
  by (cases A rule: mat3_cases; cases B rule: mat3_cases; cases v)
     (simp add: quad_form_def algebra_simps)

lemma quad_msub: "quad_form (msub A B) v = quad_form A v - quad_form B v"
  by (cases A rule: mat3_cases; cases B rule: mat3_cases; cases v)
     (simp add: quad_form_def algebra_simps)

lemma quad_mdiv: "quad_form (mdiv A n) v = quad_form A v / n"
  by (cases A rule: mat3_cases; cases v)
     (simp add: quad_form_def algebra_simps add_divide_distrib)

lemma quad_zero: "quad_form zero_mat v = 0"
  by (cases v) (simp add: quad_form_def zero_mat_def)

lemma dot_vadd: "dot v (vadd a b) = dot v a + dot v b"
  by (cases v; cases a; cases b) (simp add: algebra_simps)

lemma dot_zero: "dot v zero_vec = 0"
  by (cases v) (simp add: zero_vec_def)

lemma quad_outer_sum: "quad_form (outer_sum xs) v = sum_list (map (\<lambda>x. (dot v x)\<^sup>2) xs)"
  by (induction xs) (simp_all add: quad_zero quad_madd quad_outer)

lemma dot_vsum: "dot v (vsum xs) = sum_list (map (dot v) xs)"
  by (induction xs) (simp_all add: dot_zero dot_vadd)

lemma quad_scatter:
  "quad_form (scatter xs) v =
     sum_list (map (\<lambda>x. (dot v x)\<^sup>2) xs) - (sum_list (map (dot v) xs))\<^sup>2 / real (length xs)"
  by (simp add: scatter_def quad_msub quad_mdiv quad_outer quad_outer_sum dot_vsum)

lemma two_sum_le:
  "2 * a * sum_list (as :: real list) \<le> sum_list (map (\<lambda>x. x\<^sup>2) as) + real (length as) * a\<^sup>2"
proof (induction as)
  case Nil
  show ?case by simp
next
  case (Cons x as)
  have "2 * a * x \<le> x\<^sup>2 + a\<^sup>2"
    using sum_squares_bound [of a x] by (simp add: algebra_simps)
  with Cons show ?case by (simp add: algebra_simps)
qed

lemma sum_list_square_le:
  "(sum_list (as :: real list))\<^sup>2 \<le> real (length as) * sum_list (map (\<lambda>x. x\<^sup>2) as)"
proof (induction as)
  case Nil
  show ?case by simp
next
  case (Cons a as)
  have "(a + sum_list as)\<^sup>2 = a\<^sup>2 + 2 * a * sum_list as + (sum_list as)\<^sup>2"
    by (simp add: power2_sum algebra_simps)
  also have "\<dots> \<le> a\<^sup>2 + (sum_list (map (\<lambda>x. x\<^sup>2) as) + real (length as) * a\<^sup>2)
                   + real (length as) * sum_list (map (\<lambda>x. x\<^sup>2) as)"
    using two_sum_le [of a as] Cons by simp
  finally show ?case by (simp add: algebra_simps)
qed

lemma psd_scatter:
  assumes "xs \<noteq> []"
  shows "psd (scatter xs)"
  unfolding psd_def
proof
  fix v
  let ?as = "map (dot v) xs"
  have n: "0 < real (length xs)" using assms by simp
  have "(sum_list ?as)\<^sup>2 \<le> real (length ?as) * sum_list (map (\<lambda>x. x\<^sup>2) ?as)"
    by (rule sum_list_square_le)
  then have "(sum_list ?as)\<^sup>2 / real (length xs) \<le> sum_list (map (\<lambda>x. (dot v x)\<^sup>2) xs)"
    using n by (simp add: comp_def pos_divide_le_eq mult.commute)
  then show "0 \<le> quad_form (scatter xs) v"
    by (simp add: quad_scatter)
qed

lemma symmetric_outer: "symmetric (outer x x)"
  by (cases x) simp

lemma symmetric_madd: "symmetric A \<Longrightarrow> symmetric B \<Longrightarrow> symmetric (madd A B)"
  by (cases A rule: mat3_cases; cases B rule: mat3_cases) simp

lemma symmetric_msub: "symmetric A \<Longrightarrow> symmetric B \<Longrightarrow> symmetric (msub A B)"
  by (cases A rule: mat3_cases; cases B rule: mat3_cases) simp

lemma symmetric_mdiv: "symmetric A \<Longrightarrow> symmetric (mdiv A n)"
  by (cases A rule: mat3_cases) simp

lemma symmetric_outer_sum: "symmetric (outer_sum xs)"
  by (induction xs) (simp_all add: zero_mat_def symmetric_madd symmetric_outer)

lemma symmetric_scatter: "symmetric (scatter xs)"
  by (simp add: scatter_def symmetric_msub symmetric_mdiv symmetric_outer symmetric_outer_sum)


section \<open>The invariant of the splitting loop\<close>

lemma get_class_mean_cov_fields:
  "\<exists>m' c'. get_class_mean_cov img classes (Node m c cid l r) = Node m' c' cid l r"
  by (simp split: prod.splits)

lemma get_class_mean_cov_good:
  assumes "map length classes = map length img" and "cid \<in> set (concat classes)"
  shows "\<exists>m' C. get_class_mean_cov img classes (Node m c cid l r) = Node m' (Some C) cid l r
            \<and> symmetric C \<and> psd C"
proof -
  have ne: "class_pixels cid img classes \<noteq> []"
    by (rule class_pixels_nonempty [OF assms])
  show ?thesis
    using get_class_mean_cov_nonempty [OF ne, of m c l r] symmetric_scatter psd_scatter [OF ne]
    by blast
qed

lemma two_or_none_graft:
  "node_at t p \<noteq> Null \<Longrightarrow> two_or_none t \<Longrightarrow> two_or_none N \<Longrightarrow> N \<noteq> Null \<Longrightarrow>
     two_or_none (modify_at p (\<lambda>x. N) t)"
proof (induction t p rule: node_at.induct)
  case (3 m c cid l r ds)
  then have "l \<noteq> Null" by (cases ds) auto
  with 3 show ?case by (auto simp: modify_at_not_Null)
next
  case (4 m c cid l r ds)
  then have "r \<noteq> Null" by (cases ds) auto
  with 4 show ?case by (auto simp: modify_at_not_Null)
qed auto

lemma two_or_none_leaf:
  "two_or_none t \<Longrightarrow> p \<in> set (leaf_paths t) \<Longrightarrow>
     \<exists>m c cid. node_at t p = Node m c cid Null Null"
  by (induction t arbitrary: p) (auto split: if_splits)

lemma concat_nonempty_shape:
  "map length xs = map length ys \<Longrightarrow> concat xs \<noteq> [] \<Longrightarrow> concat ys \<noteq> []"
  by (metis length_concat length_0_conv)

lemma selected_is_leaf:
  assumes ok: "eigen_ok eigen" and inv: "run_inv img0 (img, classes, tree)"
    and ne: "concat classes \<noteq> []"
  shows "get_max_eigenvalue_node eigen tree \<in> set (leaf_paths tree)"
proof -
  from ne obtain c where "c \<in> set (concat classes)"
    by (cases "concat classes") auto
  with inv obtain p where p: "p \<in> set (leaf_paths tree)"
      "good_cov (covariance (node_at tree p))"
    unfolding run_inv_def by auto
  from p(1) obtain m cov cid l r where n: "node_at tree p = Node m cov cid l r"
    using node_at_leaf_path [OF p(1)] by (cases "node_at tree p") auto
  from p(2) obtain C where C: "cov = Some C" "symmetric C" "psd C"
    by (auto simp: good_cov_def n)
  from ok C obtain v where v: "fst (eigen (Some C)) = Some v" "- 1 < v"
    unfolding eigen_ok_def by blast
  have "top_eigenvalue eigen (node_at tree p) = Some v"
    by (simp add: n C(1) v(1))
  from get_max_eigenvalue_node_maximal [OF p(1) this v(2)] show ?thesis by simp
qed


lemma run_inv_step:
  assumes ok: "eigen_ok eigen" and inv: "run_inv img0 s"
  shows "run_inv img0 (split_step eigen s)"
proof -
  obtain img classes tree where s: "s = (img, classes, tree)"
    by (cases s) auto
  have img: "img = img0" and shape: "map length classes = map length img"
    and nn: "tree \<noteq> Null" and ton: "two_or_none tree"
    and ids: "\<And>c. c \<in> set (concat classes) \<Longrightarrow> \<exists>p \<in> set (leaf_paths tree).
                 classid (node_at tree p) = c \<and> good_cov (covariance (node_at tree p))"
    using inv unfolding run_inv_def s by auto
  define nxt where "nxt = get_max_eigenvalue_node eigen tree"
  obtain m cov cid l r where at: "node_at tree nxt = Node m cov cid l r"
    using get_max_eigenvalue_node_valid [OF nn, of eigen]
    by (cases "node_at tree nxt") (auto simp: nxt_def)
  define nl :: uchar where "nl = word_of_int (max_id tree + 1)"
  define lft where "lft = goes_left (snd (eigen cov)) m"
  define cl where "cl = partition_rows lft cid nl (nl + 1) img classes"
  define A where "A = get_class_mean_cov img cl (Node None None nl Null Null)"
  define B where "B = get_class_mean_cov img cl (Node None None (nl + 1) Null Null)"
  define N where "N = Node m cov cid A B"
  have step: "split_step eigen s = (img, cl, modify_at nxt (\<lambda>x. N) tree)"
    unfolding s N_def A_def B_def cl_def lft_def nl_def nxt_def
    by (rule split_step_unfold [OF at [unfolded nxt_def]])
  have shape': "map length cl = map length img"
    by (simp add: cl_def partition_rows_shape shape)
  obtain mA cA where A: "A = Node mA cA nl Null Null"
    using get_class_mean_cov_fields [of img cl None None nl Null Null] by (auto simp: A_def)
  obtain mB cB where B: "B = Node mB cB (nl + 1) Null Null"
    using get_class_mean_cov_fields [of img cl None None "nl + 1" Null Null]
    by (auto simp: B_def)
  have Nnn: "N \<noteq> Null" and Nton: "two_or_none N" and Nleaves: "leaf_paths N = [[L], [R]]"
    by (simp_all add: N_def A B)
  have nn': "modify_at nxt (\<lambda>x. N) tree \<noteq> Null"
    by (rule modify_at_not_Null [OF nn Nnn])
  have ton': "two_or_none (modify_at nxt (\<lambda>x. N) tree)"
    by (rule two_or_none_graft [OF _ ton Nton Nnn]) (simp add: at)
  have ids': "\<exists>p \<in> set (leaf_paths (modify_at nxt (\<lambda>x. N) tree)).
                classid (node_at (modify_at nxt (\<lambda>x. N) tree) p) = c
                \<and> good_cov (covariance (node_at (modify_at nxt (\<lambda>x. N) tree) p))"
    if c: "c \<in> set (concat cl)" for c
  proof -
    have "concat cl \<noteq> []" using c by (cases "concat cl") simp_all
    then have ne: "concat classes \<noteq> []"
      using concat_nonempty_shape [of cl classes] shape shape' by simp
    have leaf: "nxt \<in> set (leaf_paths tree)"
      unfolding nxt_def by (rule selected_is_leaf [OF ok inv [unfolded s] ne])
    have paths: "set (leaf_paths (modify_at nxt (\<lambda>x. N) tree)) =
                   (set (leaf_paths tree) - {nxt}) \<union> {nxt @ [L], nxt @ [R]}"
      using leaf_paths_graft_set [OF leaf Nnn] by (simp add: Nleaves)
    have atL: "node_at (modify_at nxt (\<lambda>x. N) tree) (nxt @ [L]) = A"
      and atR: "node_at (modify_at nxt (\<lambda>x. N) tree) (nxt @ [R]) = B"
      using node_at_modify_at [of tree nxt "\<lambda>x. N"] at by (simp_all add: N_def)
    from c obtain color c0 where pc: "(color, c0) \<in> set (paired img classes)"
        "c = relabel lft cid nl (nl + 1) (color, c0)"
      unfolding cl_def concat_partition_rows [OF shape] by auto
    show ?thesis
    proof (cases "c0 = cid")
      case False
      have "c0 \<in> set (concat classes)"
        using pc(1) map_snd_paired [OF shape] by (metis image_eqI set_map snd_conv)
      moreover have cc: "c = c0" using pc(2) False by simp
      ultimately obtain p where p: "p \<in> set (leaf_paths tree)"
          "classid (node_at tree p) = c" "good_cov (covariance (node_at tree p))"
        using ids by blast
      have "p \<noteq> nxt" using p(2) at False cc by auto
      then have "p \<in> set (leaf_paths (modify_at nxt (\<lambda>x. N) tree))"
          "node_at (modify_at nxt (\<lambda>x. N) tree) p = node_at tree p"
        using p(1) paths node_at_graft_other [OF leaf p(1)] by auto
      with p show ?thesis by (intro bexI [of _ p]) simp_all
    next
      case True
      show ?thesis
      proof (cases "lft color")
        case left: True
        then have cnl: "c = nl" using pc(2) True by simp
        obtain m' C where "A = Node m' (Some C) nl Null Null" "symmetric C" "psd C"
          using get_class_mean_cov_good [OF shape' c [unfolded cnl], of None None Null Null]
          unfolding A_def by blast
        then have "classid A = c" "good_cov (covariance A)"
          by (auto simp: cnl good_cov_def)
        then show ?thesis using paths atL by (intro bexI [of _ "nxt @ [L]"]) simp_all
      next
        case right: False
        then have cnr: "c = nl + 1" using pc(2) True by simp
        obtain m' C where "B = Node m' (Some C) (nl + 1) Null Null" "symmetric C" "psd C"
          using get_class_mean_cov_good [OF shape' c [unfolded cnr], of None None Null Null]
          unfolding B_def by blast
        then have "classid B = c" "good_cov (covariance B)"
          by (auto simp: cnr good_cov_def)
        then show ?thesis using paths atR by (intro bexI [of _ "nxt @ [R]"]) simp_all
      qed
    qed
  qed
  show ?thesis
    unfolding step run_inv_def prod.case using img shape' nn' ton' ids' by blast
qed

lemma run_inv_initial: "run_inv img (initial_state img)"
proof -
  define classes :: class_buffer where "classes = map (map (\<lambda>p. 1)) img"
  define tree where "tree = get_class_mean_cov img classes (Node None None 1 Null Null)"
  have init: "initial_state img = (img, classes, tree)"
    by (simp add: initial_state_def Let_def classes_def tree_def new_t_color_node_def)
  have shape: "map length classes = map length img"
    by (simp add: classes_def comp_def)
  obtain m' c' where t: "tree = Node m' c' 1 Null Null"
    using get_class_mean_cov_fields [of img classes None None 1 Null Null]
    by (auto simp: tree_def)
  have ids: "\<exists>p \<in> set (leaf_paths tree).
               classid (node_at tree p) = c \<and> good_cov (covariance (node_at tree p))"
    if c: "c \<in> set (concat classes)" for c
  proof -
    have c1: "c = 1" using c by (auto simp: classes_def)
    obtain m'' C where "tree = Node m'' (Some C) 1 Null Null" "symmetric C" "psd C"
      using get_class_mean_cov_good [OF shape c [unfolded c1], of None None Null Null]
      unfolding tree_def by blast
    then show ?thesis by (auto simp: c1 good_cov_def)
  qed
  have "tree \<noteq> Null" "two_or_none tree"
    using t by simp_all
  then show ?thesis
    unfolding init run_inv_def prod.case using shape ids by blast
qed

lemma run_state_Suc: "run_state eigen img (Suc k) = split_step eigen (run_state eigen img k)"
  by (simp add: run_state_def)

lemma run_inv_run_state: "eigen_ok eigen \<Longrightarrow> run_inv img (run_state eigen img k)"
proof (induction k)
  case 0
  show ?case by (simp add: run_state_def run_inv_initial)
next
  case (Suc k)
  then show ?case by (simp add: run_state_Suc run_inv_step)
qed

section \<open>Leaves and colours of a run\<close>

lemma eigen_ok_eigen_diag: "eigen_ok eigen_diag"
  unfolding eigen_ok_def
proof (intro allI impI)
  fix C :: mat3
  assume C: "symmetric C \<and> psd C"
  obtain a00 a01 a02 a10 a11 a12 a20 a21 a22
    where M: "C = ((a00, a01, a02), (a10, a11, a12), (a20, a21, a22))"
    by (rule mat3_cases)
  have "0 \<le> quad_form C (1, 0, 0)" "0 \<le> quad_form C (0, 1, 0)" "0 \<le> quad_form C (0, 0, 1)"
    using C by (simp_all add: psd_def)
  then have "0 \<le> a00" "0 \<le> a11" "0 \<le> a22"
    by (simp_all add: M quad_form_def)
  then show "\<exists>v. fst (eigen_diag (Some C)) = Some v \<and> - 1 < v"
    by (simp add: eigen_diag_def M)
qed

lemma leaf_count_run:
  assumes ok: "eigen_ok eigen" and ne: "concat img \<noteq> []"
  shows "length (leaf_paths (snd (snd (run_state eigen img k)))) = k + 1"
proof (induction k)
  case 0
  obtain m' c' where "get_class_mean_cov img (map (map (\<lambda>p. 1)) img) (Node None None 1 Null Null)
      = Node m' c' 1 Null Null"
    using get_class_mean_cov_fields by blast
  then show ?case
    by (simp add: run_state_def initial_state_def Let_def new_t_color_node_def)
next
  case (Suc k)
  obtain img' classes tree where s: "run_state eigen img k = (img', classes, tree)"
    by (cases "run_state eigen img k") auto
  have inv: "run_inv img (img', classes, tree)"
    using run_inv_run_state [OF ok, of img k] by (simp add: s)
  then have img': "img' = img" and shape: "map length classes = map length img"
    and nn: "tree \<noteq> Null"
    by (simp_all add: run_inv_def)
  have "concat classes \<noteq> []"
    using concat_nonempty_shape [of img classes] shape ne by simp
  then have leaf: "get_max_eigenvalue_node eigen tree \<in> set (leaf_paths tree)"
    by (rule selected_is_leaf [OF ok inv])
  obtain m cov cid l r
    where at: "node_at tree (get_max_eigenvalue_node eigen tree) = Node m cov cid l r"
    using node_at_leaf_path [OF leaf]
    by (cases "node_at tree (get_max_eigenvalue_node eigen tree)") auto
  define cl where "cl = partition_rows (goes_left (snd (eigen cov)) m) cid
      (word_of_int (max_id tree + 1)) (word_of_int (max_id tree + 1) + 1) img' classes"
  obtain mA cA where A: "get_class_mean_cov img' cl
      (Node None None (word_of_int (max_id tree + 1)) Null Null) =
        Node mA cA (word_of_int (max_id tree + 1)) Null Null"
    using get_class_mean_cov_fields by blast
  obtain mB cB where B: "get_class_mean_cov img' cl
      (Node None None (word_of_int (max_id tree + 1) + 1) Null Null) =
        Node mB cB (word_of_int (max_id tree + 1) + 1) Null Null"
    using get_class_mean_cov_fields by blast
  define N where "N = Node m cov cid (Node mA cA (word_of_int (max_id tree + 1)) Null Null)
      (Node mB cB (word_of_int (max_id tree + 1) + 1) Null Null)"
  have step: "split_step eigen (img', classes, tree) =
      (img', cl, modify_at (get_max_eigenvalue_node eigen tree) (\<lambda>x. N) tree)"
    unfolding split_step_unfold [OF at] cl_def [symmetric] A B N_def ..
  have "length (leaf_paths (modify_at (get_max_eigenvalue_node eigen tree) (\<lambda>x. N) tree)) + 1
          = length (leaf_paths tree) + length (leaf_paths N)"
    by (rule leaf_paths_graft_length [OF leaf]) (simp add: N_def)
  then show ?case
    using Suc by (simp add: run_state_Suc s step N_def)
qed

lemma split_loop_run_state: "split_loop eigen img count = run_state eigen img (nat (count - 1))"
  by (simp add: split_loop_def run_state_def)

lemma colors_find_dominant_colors:
  "colors (find_dominant_colors eigen img count) =
     get_dominant_colors (snd (snd (split_loop eigen img count)))"
  by (simp add: find_dominant_colors_def split: prod.splits)

lemma one_pixel_initial:
  "initial_state [[(7, 7, 7)]] =
     ([[(7, 7, 7)]], [[1]],
      Node (Some (7 / 255, 7 / 255, 7 / 255)) (Some ((0, 0, 0), (0, 0, 0), (0, 0, 0))) 1
        Null Null)"
  by (simp add: initial_state_def new_t_color_node_def zero_vec_def zero_mat_def)

lemma one_pixel_split:
  "split_step eigen_diag
     ([[(7, 7, 7)]], [[1]],
      Node (Some (7 / 255, 7 / 255, 7 / 255)) (Some ((0, 0, 0), (0, 0, 0), (0, 0, 0))) 1
        Null Null) =
     ([[(7, 7, 7)]], [[2]],
      Node (Some (7 / 255, 7 / 255, 7 / 255)) (Some ((0, 0, 0), (0, 0, 0), (0, 0, 0))) 1
        (Node (Some (7 / 255, 7 / 255, 7 / 255)) (Some ((0, 0, 0), (0, 0, 0), (0, 0, 0))) 2
           Null Null)
        (Node None None 3 Null Null))"
  by (simp add: split_step_def partition_class_def Let_def eigen_diag_def
      new_t_color_node_def get_next_classid_def zero_vec_def zero_mat_def)

lemma one_pixel_run_1:
  "run_state eigen_diag [[(7, 7, 7)]] (Suc 0) =
     ([[(7, 7, 7)]], [[2]],
      Node (Some (7 / 255, 7 / 255, 7 / 255)) (Some ((0, 0, 0), (0, 0, 0), (0, 0, 0))) 1
        (Node (Some (7 / 255, 7 / 255, 7 / 255)) (Some ((0, 0, 0), (0, 0, 0), (0, 0, 0))) 2
           Null Null)
        (Node None None 3 Null Null))"
  by (simp only: run_state_def funpow.simps comp_def id_def one_pixel_initial one_pixel_split)

lemma two_pixel_initial:
  "initial_state [[(0, 0, 0), (255, 0, 0)]] =
     ([[(0, 0, 0), (255, 0, 0)]], [[1, 1]],
      Node (Some (1 / 2, 0, 0)) (Some ((1 / 2, 0, 0), (0, 0, 0), (0, 0, 0))) 1 Null Null)"
  by (simp add: initial_state_def new_t_color_node_def zero_vec_def zero_mat_def)

lemma two_pixel_split:
  "split_step eigen_diag
     ([[(0, 0, 0), (255, 0, 0)]], [[1, 1]],
      Node (Some (1 / 2, 0, 0)) (Some ((1 / 2, 0, 0), (0, 0, 0), (0, 0, 0))) 1 Null Null) =
     ([[(0, 0, 0), (255, 0, 0)]], [[2, 3]],
      Node (Some (1 / 2, 0, 0)) (Some ((1 / 2, 0, 0), (0, 0, 0), (0, 0, 0))) 1
        (Node (Some (0, 0, 0)) (Some ((0, 0, 0), (0, 0, 0), (0, 0, 0))) 2 Null Null)
        (Node (Some (1, 0, 0)) (Some ((0, 0, 0), (0, 0, 0), (0, 0, 0))) 3 Null Null))"
  by (simp add: split_step_def partition_class_def Let_def eigen_diag_def
      new_t_color_node_def get_next_classid_def zero_vec_def zero_mat_def)

lemma two_pixel_loop:
  "split_loop eigen_diag [[(0, 0, 0), (255, 0, 0)]] 2 =
     ([[(0, 0, 0), (255, 0, 0)]], [[2, 3]],
      Node (Some (1 / 2, 0, 0)) (Some ((1 / 2, 0, 0), (0, 0, 0), (0, 0, 0))) 1
        (Node (Some (0, 0, 0)) (Some ((0, 0, 0), (0, 0, 0), (0, 0, 0))) 2 Null Null)
        (Node (Some (1, 0, 0)) (Some ((0, 0, 0), (0, 0, 0), (0, 0, 0))) 3 Null Null))"
proof -
  have "nat (2 - 1) = Suc 0" by simp
  then show ?thesis
    by (simp only: split_loop_def funpow.simps comp_def id_def two_pixel_initial two_pixel_split)
qed

lemma two_pixel_colors:
  "colors (find_dominant_colors eigen_diag [[(0, 0, 0), (255, 0, 0)]] 2)
     = [Some (0, 0, 0), Some (255, 0, 0)]"
  by (simp add: find_dominant_colors_def two_pixel_loop get_dominant_colors_def get_leaves_def
      double_to_uchar_def)

text \<open>
  C3. For an image with at least one pixel and a target count \<open>N \<ge> 1\<close> (so for every
  \<open>N\<close> from 1 to 255), the loop of \<open>find_dominant_colors\<close> is \<open>N - 1\<close> passes of its
  body, after which the tree has exactly \<open>N\<close> leaves, and the function returns exactly
  \<open>N\<close> colours: for each leaf, in the order of \<open>get_leaves\<close>, its mean scaled back to
  bytes. \<open>cv::eigen\<close> enters through \<open>eigen_ok\<close> only.
\<close>

theorem find_dominant_colors_leaf_count:
  assumes "eigen_ok eigen" and "concat img \<noteq> []" and "1 \<le> N"
  shows "split_loop eigen img N = (split_step eigen ^^ nat (N - 1)) (initial_state img)
         \<and> length (get_leaves (snd (snd (split_loop eigen img N)))) = nat N
         \<and> colors (find_dominant_colors eigen img N) =
             map (\<lambda>leaf. mean_color (mean leaf)) (get_leaves (snd (snd (split_loop eigen img N))))
         \<and> length (colors (find_dominant_colors eigen img N)) = nat N"
proof -
  have "length (get_leaves (snd (snd (split_loop eigen img N)))) = nat N"
    using leaf_count_run [OF assms(1,2), of "nat (N - 1)"] assms(3)
    by (simp add: split_loop_run_state get_leaves_length)
  then show ?thesis
    by (simp add: colors_find_dominant_colors get_dominant_colors_def split_loop_def)
qed

theorem find_dominant_colors_leaf_count_witness:
  "eigen_ok eigen_diag \<and> concat [[(0, 0, 0), (255, 0, 0) :: vec3b]] \<noteq> [] \<and> (1 :: int) \<le> 2
   \<and> length (get_leaves (snd (snd (split_loop eigen_diag [[(0, 0, 0), (255, 0, 0)]] 2)))) = 2
   \<and> colors (find_dominant_colors eigen_diag [[(0, 0, 0), (255, 0, 0)]] 2)
       = [Some (0, 0, 0), Some (255, 0, 0)]"
proof -
  have h: "concat [[(0, 0, 0), (255, 0, 0) :: vec3b]] \<noteq> []" "(1 :: int) \<le> 2"
    by simp_all
  have "length (get_leaves (snd (snd (split_loop eigen_diag [[(0, 0, 0), (255, 0, 0)]] 2))))
          = nat 2"
    using find_dominant_colors_leaf_count [OF eigen_ok_eigen_diag h] by blast
  then show ?thesis
    using eigen_ok_eigen_diag two_pixel_colors by simp
qed

section \<open>Ids of the buffer and ids of the leaves\<close>

text \<open>
  C4, as the code has it. After initialisation and after every pass of the loop, every
  id in the classification buffer is the id of a leaf of the tree, for every image and
  every decomposition that satisfies \<open>eigen_ok\<close>. The converse is not stated: a leaf may
  have an id that no pixel carries.
\<close>

theorem buffer_ids_subset_leaf_ids:
  assumes ok: "eigen_ok eigen"
  shows "set (concat (fst (snd (run_state eigen img k))))
           \<subseteq> classid ` set (get_leaves (snd (snd (run_state eigen img k))))"
proof
  fix c
  obtain img' classes tree where s: "run_state eigen img k = (img', classes, tree)"
    by (cases "run_state eigen img k") auto
  assume "c \<in> set (concat (fst (snd (run_state eigen img k))))"
  then have "c \<in> set (concat classes)" by (simp add: s)
  moreover have "run_inv img (img', classes, tree)"
    using run_inv_run_state [OF ok, of img k] by (simp add: s)
  ultimately obtain p where "p \<in> set (leaf_paths tree)" "classid (node_at tree p) = c"
    unfolding run_inv_def by auto
  then have "c \<in> classid ` set (leaves_of tree)"
    by (auto simp: leaves_of_def)
  then show "c \<in> classid ` set (get_leaves (snd (snd (run_state eigen img k))))"
    by (simp add: s get_leaves_set)
qed

theorem buffer_ids_subset_leaf_ids_witness:
  "eigen_ok eigen_diag
   \<and> set (concat (fst (snd (run_state eigen_diag [[(7, 7, 7)]] 1))))
       \<subseteq> classid ` set (get_leaves (snd (snd (run_state eigen_diag [[(7, 7, 7)]] 1))))"
  using buffer_ids_subset_leaf_ids [OF eigen_ok_eigen_diag, of "[[(7, 7, 7)]]" 1] eigen_ok_eigen_diag
  by simp

text \<open>
  C4, as the specification words it, fails. The one pixel of a 1x1 image goes to the
  left child at the first split (its projection equals the threshold), so the right
  child is a leaf whose id 3 no pixel carries: the buffer holds the id 2 alone, the
  leaves have the ids 2 and 3.
\<close>

theorem buffer_ids_not_leaf_ids:
  "set (concat (fst (snd (run_state eigen_diag [[(7, 7, 7)]] 1))))
     \<noteq> classid ` set (get_leaves (snd (snd (run_state eigen_diag [[(7, 7, 7)]] 1))))"
  by (simp add: one_pixel_run_1 get_leaves_def)

section \<open>The most spread leaf\<close>

text \<open>
  C7. On a tree of one node \<open>get_max_eigenvalue_node\<close> returns the root, whatever
  \<open>cv::eigen\<close> would compute. On any tree in which some leaf has a top eigenvalue above
  the initial \<open>max_eigen = -1\<close> (the eigenvalues of a covariance matrix are not negative),
  it returns a leaf whose top eigenvalue is maximal among all leaves; in a tree whose
  nodes have two children or none that leaf has no children.
\<close>

theorem get_max_eigenvalue_node_most_spread:
  "get_max_eigenvalue_node eigen (Node m c cid Null Null) = []
   \<and> (q \<in> set (leaf_paths t) \<and> top_eigenvalue eigen (node_at t q) = Some v \<and> - 1 < v \<longrightarrow>
        get_max_eigenvalue_node eigen t \<in> set (leaf_paths t)
        \<and> (two_or_none t \<longrightarrow>
             (\<exists>m' c' cid'. node_at t (get_max_eigenvalue_node eigen t) = Node m' c' cid' Null Null))
        \<and> (\<exists>w. top_eigenvalue eigen (node_at t (get_max_eigenvalue_node eigen t)) = Some w
               \<and> (\<forall>q' \<in> set (leaf_paths t). \<forall>v'.
                     top_eigenvalue eigen (node_at t q') = Some v' \<longrightarrow> v' \<le> w)))"
proof (intro conjI impI)
  show "get_max_eigenvalue_node eigen (Node m c cid Null Null) = []"
    by simp
next
  assume h: "q \<in> set (leaf_paths t) \<and> top_eigenvalue eigen (node_at t q) = Some v \<and> - 1 < v"
  then have *: "get_max_eigenvalue_node eigen t \<in> set (leaf_paths t)
      \<and> (\<exists>w. top_eigenvalue eigen (node_at t (get_max_eigenvalue_node eigen t)) = Some w
             \<and> - 1 < w
             \<and> (\<forall>q' \<in> set (leaf_paths t). \<forall>v'.
                   top_eigenvalue eigen (node_at t q') = Some v' \<longrightarrow> v' \<le> w))"
    using get_max_eigenvalue_node_maximal [of q t eigen v] by blast
  from * show "get_max_eigenvalue_node eigen t \<in> set (leaf_paths t)" by blast
  from * show "\<exists>w. top_eigenvalue eigen (node_at t (get_max_eigenvalue_node eigen t)) = Some w
               \<and> (\<forall>q' \<in> set (leaf_paths t). \<forall>v'.
                     top_eigenvalue eigen (node_at t q') = Some v' \<longrightarrow> v' \<le> w)"
    by blast
  assume "two_or_none t"
  with * show "\<exists>m' c' cid'. node_at t (get_max_eigenvalue_node eigen t) = Node m' c' cid' Null Null"
    using two_or_none_leaf by blast
qed

lemma three_node_selection:
  "get_max_eigenvalue_node eigen_diag
     (Node (Some (2 / 5, 0, 0)) (Some ((14 / 25, 0, 0), (0, 0, 0), (0, 0, 0))) 1
        (Node (Some (1 / 10, 0, 0)) (Some ((1 / 50, 0, 0), (0, 0, 0), (0, 0, 0))) 2 Null Null)
        (Node (Some (1, 0, 0)) (Some ((0, 0, 0), (0, 0, 0), (0, 0, 0))) 3 Null Null)) = [L]"
  by (simp add: eigen_diag_def)

theorem get_max_eigenvalue_node_most_spread_witness:
  "[L] \<in> set (leaf_paths
     (Node (Some (2 / 5, 0, 0)) (Some ((14 / 25, 0, 0), (0, 0, 0), (0, 0, 0))) 1
        (Node (Some (1 / 10, 0, 0)) (Some ((1 / 50, 0, 0), (0, 0, 0), (0, 0, 0))) 2 Null Null)
        (Node (Some (1, 0, 0)) (Some ((0, 0, 0), (0, 0, 0), (0, 0, 0))) 3 Null Null)))
   \<and> top_eigenvalue eigen_diag (node_at
     (Node (Some (2 / 5, 0, 0)) (Some ((14 / 25, 0, 0), (0, 0, 0), (0, 0, 0))) 1
        (Node (Some (1 / 10, 0, 0)) (Some ((1 / 50, 0, 0), (0, 0, 0), (0, 0, 0))) 2 Null Null)
        (Node (Some (1, 0, 0)) (Some ((0, 0, 0), (0, 0, 0), (0, 0, 0))) 3 Null Null)) [L])
       = Some (1 / 50)
   \<and> - 1 < (1 / 50 :: real)
   \<and> two_or_none
     (Node (Some (2 / 5, 0, 0)) (Some ((14 / 25, 0, 0), (0, 0, 0), (0, 0, 0))) 1
        (Node (Some (1 / 10, 0, 0)) (Some ((1 / 50, 0, 0), (0, 0, 0), (0, 0, 0))) 2 Null Null)
        (Node (Some (1, 0, 0)) (Some ((0, 0, 0), (0, 0, 0), (0, 0, 0))) 3 Null Null))
   \<and> get_max_eigenvalue_node eigen_diag
     (Node (Some (2 / 5, 0, 0)) (Some ((14 / 25, 0, 0), (0, 0, 0), (0, 0, 0))) 1
        (Node (Some (1 / 10, 0, 0)) (Some ((1 / 50, 0, 0), (0, 0, 0), (0, 0, 0))) 2 Null Null)
        (Node (Some (1, 0, 0)) (Some ((0, 0, 0), (0, 0, 0), (0, 0, 0))) 3 Null Null))
     \<in> set (leaf_paths
     (Node (Some (2 / 5, 0, 0)) (Some ((14 / 25, 0, 0), (0, 0, 0), (0, 0, 0))) 1
        (Node (Some (1 / 10, 0, 0)) (Some ((1 / 50, 0, 0), (0, 0, 0), (0, 0, 0))) 2 Null Null)
        (Node (Some (1, 0, 0)) (Some ((0, 0, 0), (0, 0, 0), (0, 0, 0))) 3 Null Null)))
   \<and> get_max_eigenvalue_node eigen_diag
     (Node (Some (2 / 5, 0, 0)) (Some ((14 / 25, 0, 0), (0, 0, 0), (0, 0, 0))) 1
        (Node (Some (1 / 10, 0, 0)) (Some ((1 / 50, 0, 0), (0, 0, 0), (0, 0, 0))) 2 Null Null)
        (Node (Some (1, 0, 0)) (Some ((0, 0, 0), (0, 0, 0), (0, 0, 0))) 3 Null Null)) = [L]"
proof -
  let ?t = "Node (Some (2 / 5, 0, 0)) (Some ((14 / 25, 0, 0), (0, 0, 0), (0, 0, 0))) 1
        (Node (Some (1 / 10, 0, 0)) (Some ((1 / 50, 0, 0), (0, 0, 0), (0, 0, 0))) 2 Null Null)
        (Node (Some (1, 0, 0)) (Some ((0, 0, 0), (0, 0, 0), (0, 0, 0))) 3 Null Null)"
  have h: "[L] \<in> set (leaf_paths ?t) \<and> top_eigenvalue eigen_diag (node_at ?t [L]) = Some (1 / 50)
           \<and> - 1 < (1 / 50 :: real)"
    by (simp add: eigen_diag_def)
  have t: "two_or_none ?t" by simp
  from get_max_eigenvalue_node_most_spread [of eigen_diag None None 0 "[L]" ?t "1 / 50",
      THEN conjunct2, rule_format, OF h]
  have "get_max_eigenvalue_node eigen_diag ?t \<in> set (leaf_paths ?t)" by blast
  with h t three_node_selection show ?thesis by blast
qed

section \<open>What a split leaves unchanged\<close>

lemma partition_class_unfold:
  assumes "node_at tree node = Node m cov cid l r"
  shows "partition_class eigen img classes nextid node tree =
           (img,
            partition_rows (goes_left (snd (eigen cov)) m) cid nextid (nextid + 1) img classes,
            modify_at node
              (\<lambda>x. Node m cov cid (Node None None nextid Null Null)
                                  (Node None None (nextid + 1) Null Null)) tree)"
proof -
  have "modify_at node (set_children (set_classid nextid new_t_color_node)
                                     (set_classid (nextid + 1) new_t_color_node)) tree =
        modify_at node (\<lambda>x. Node m cov cid (Node None None nextid Null Null)
                                  (Node None None (nextid + 1) Null Null)) tree"
    by (rule modify_at_cong) (simp add: assms new_t_color_node_def)
  then show ?thesis
    by (simp add: partition_class_def assms Let_def)
qed

text \<open>
  C6. A split through the pointer \<open>node\<close> leaves the pixel buffer as it was, keeps the
  shape of the classification buffer and every entry whose id differs from the id of the
  split node, and changes the tree at that node alone: the node keeps its id, mean and
  matrix and gets two new children without statistics, with the ids \<open>nextid\<close> and
  \<open>nextid + 1\<close>.
\<close>

theorem partition_class_frame:
  assumes "node_at tree node = Node m cov cid l r"
    and "partition_class eigen img classes nextid node tree = (img', classes', tree')"
  shows "img' = img
    \<and> map length classes' = map length classes
    \<and> (\<forall>y < length classes. \<forall>x < length (classes ! y).
          classes ! y ! x \<noteq> cid \<longrightarrow> classes' ! y ! x = classes ! y ! x)
    \<and> node_at tree' node =
          Node m cov cid (Node None None nextid Null Null) (Node None None (nextid + 1) Null Null)
    \<and> tree' = modify_at node
          (\<lambda>x. Node m cov cid (Node None None nextid Null Null)
                              (Node None None (nextid + 1) Null Null)) tree"
proof -
  have eq: "img' = img"
      "classes' = partition_rows (goes_left (snd (eigen cov)) m) cid nextid (nextid + 1)
                    img classes"
      "tree' = modify_at node
          (\<lambda>x. Node m cov cid (Node None None nextid Null Null)
                              (Node None None (nextid + 1) Null Null)) tree"
    using assms(2) unfolding partition_class_unfold [OF assms(1)] by auto
  have at: "node_at tree' node =
          Node m cov cid (Node None None nextid Null Null) (Node None None (nextid + 1) Null Null)"
    using node_at_modify_at [of tree node _ "[]"] assms(1) by (simp add: eq(3))
  show ?thesis
    using eq(1,3) at by (simp add: eq(2) partition_rows_shape partition_rows_frame)
qed

theorem partition_class_frame_witness:
  "node_at (Node (Some (1 / 2, 0, 0)) (Some ((1 / 2, 0, 0), (0, 0, 0), (0, 0, 0))) 1 Null Null) []
     = Node (Some (1 / 2, 0, 0)) (Some ((1 / 2, 0, 0), (0, 0, 0), (0, 0, 0))) 1 Null Null
   \<and> partition_class eigen_diag [[(0, 0, 0), (255, 0, 0)]] [[1, 7]] 2 []
       (Node (Some (1 / 2, 0, 0)) (Some ((1 / 2, 0, 0), (0, 0, 0), (0, 0, 0))) 1 Null Null)
     = ([[(0, 0, 0), (255, 0, 0)]], [[2, 7]],
        Node (Some (1 / 2, 0, 0)) (Some ((1 / 2, 0, 0), (0, 0, 0), (0, 0, 0))) 1
          (Node None None 2 Null Null) (Node None None 3 Null Null))
   \<and> [[2, 7 :: uchar]] ! 0 ! 1 = [[1, 7]] ! 0 ! 1"
proof -
  let ?t = "Node (Some (1 / 2, 0, 0)) (Some ((1 / 2, 0, 0), (0, 0, 0), (0, 0, 0))) 1 Null Null"
  have h1: "node_at ?t [] = ?t" by simp
  have h2: "partition_class eigen_diag [[(0, 0, 0), (255, 0, 0)]] [[1, 7]] 2 [] ?t
     = ([[(0, 0, 0), (255, 0, 0)]], [[2, 7]],
        Node (Some (1 / 2, 0, 0)) (Some ((1 / 2, 0, 0), (0, 0, 0), (0, 0, 0))) 1
          (Node None None 2 Null Null) (Node None None 3 Null Null))"
    by (simp add: partition_class_def Let_def eigen_diag_def new_t_color_node_def)
  from partition_class_frame [OF h1 h2]
  have "[[1, 7 :: uchar]] ! 0 ! 1 \<noteq> 1 \<longrightarrow> [[2, 7 :: uchar]] ! 0 ! 1 = [[1, 7]] ! 0 ! 1"
    by simp
  then show ?thesis using h1 h2 by simp
qed

section \<open>A target count of one\<close>











section \<open>The allocation of ids\<close>

lemma max_id_le_255: "max_id t \<le> 255"
proof (induction t)
  case Null
  show ?case by simp
next
  case (Node m c cid l r)
  have "uint cid < 256" using uint_lt2p [of cid] by simp
  with Node show ?case by simp
qed

lemma max_id_node_at: "max_id (node_at t p) \<le> max_id t"
  by (induction t p rule: node_at.induct) (auto simp: max_id_nonneg max.coboundedI2)

lemma max_id_graft:
  "node_at t p \<noteq> Null \<Longrightarrow> max_id (node_at t p) \<le> max_id N \<Longrightarrow>
     max_id (modify_at p (\<lambda>x. N) t) = max (max_id t) (max_id N)"
proof (induction t p rule: node_at.induct)
  case (1 t)
  then show ?case by simp
next
  case (2 d ds)
  then show ?case by simp
next
  case (3 m c cid l r ds)
  then show ?case by (simp add: max.assoc max.left_commute)
next
  case (4 m c cid l r ds)
  then show ?case by (simp add: max.assoc max.left_commute)
qed

lemma uint_uchar_of_int: "0 \<le> x \<Longrightarrow> x < 256 \<Longrightarrow> uint (word_of_int x :: uchar) = x"
  by (simp add: uint_word_of_int take_bit_int_eq_self)

lemma run_tree_not_Null: "snd (snd (run_state eigen img k)) \<noteq> Null"
proof (induction k)
  case 0
  obtain m' c' where "get_class_mean_cov img (map (map (\<lambda>p. 1)) img) (Node None None 1 Null Null)
      = Node m' c' 1 Null Null"
    using get_class_mean_cov_fields by blast
  then show ?case
    by (simp add: run_state_def initial_state_def Let_def new_t_color_node_def)
next
  case (Suc k)
  obtain img' classes tree where s: "run_state eigen img k = (img', classes, tree)"
    by (cases "run_state eigen img k") auto
  have nn: "tree \<noteq> Null" using Suc by (simp add: s)
  obtain m cov cid l r
    where at: "node_at tree (get_max_eigenvalue_node eigen tree) = Node m cov cid l r"
    using get_max_eigenvalue_node_valid [OF nn, of eigen]
    by (cases "node_at tree (get_max_eigenvalue_node eigen tree)") auto
  show ?case
    unfolding run_state_Suc s split_step_unfold [OF at]
    by (simp add: modify_at_not_Null [OF nn])
qed


lemma split_step_new_ids:
  assumes nn: "tree \<noteq> Null"
  shows "new_ids eigen (img, classes, tree) =
           (word_of_int (max_id tree + 1), word_of_int (max_id tree + 1) + 1)"
proof -
  define nxt where "nxt = get_max_eigenvalue_node eigen tree"
  obtain m cov cid l r where at: "node_at tree nxt = Node m cov cid l r"
    using get_max_eigenvalue_node_valid [OF nn, of eigen]
    by (cases "node_at tree nxt") (auto simp: nxt_def)
  define nl :: uchar where "nl = word_of_int (max_id tree + 1)"
  define cl where "cl = partition_rows (goes_left (snd (eigen cov)) m) cid nl (nl + 1) img classes"
  obtain mA cA where A: "get_class_mean_cov img cl (Node None None nl Null Null)
       = Node mA cA nl Null Null"
    using get_class_mean_cov_fields by blast
  obtain mB cB where B: "get_class_mean_cov img cl (Node None None (nl + 1) Null Null)
       = Node mB cB (nl + 1) Null Null"
    using get_class_mean_cov_fields by blast
  define N where "N = Node m cov cid (Node mA cA nl Null Null) (Node mB cB (nl + 1) Null Null)"
  have step: "split_step eigen (img, classes, tree) = (img, cl, modify_at nxt (\<lambda>x. N) tree)"
    unfolding split_step_unfold [OF at [unfolded nxt_def]] nl_def [symmetric]
      cl_def [symmetric] A B N_def nxt_def ..
  have "node_at (modify_at nxt (\<lambda>x. N) tree) (nxt @ [L]) = Node mA cA nl Null Null"
       "node_at (modify_at nxt (\<lambda>x. N) tree) (nxt @ [R]) = Node mB cB (nl + 1) Null Null"
    using node_at_modify_at [of tree nxt "\<lambda>x. N"] at by (simp_all add: N_def)
  then show ?thesis
    by (simp add: new_ids_def Let_def step nxt_def [symmetric] nl_def)
qed

lemma split_step_max_id:
  assumes nn: "tree \<noteq> Null" and small: "max_id tree \<le> 253"
  shows "max_id (snd (snd (split_step eigen (img, classes, tree)))) = max_id tree + 2"
proof -
  define nxt where "nxt = get_max_eigenvalue_node eigen tree"
  obtain m cov cid l r where at: "node_at tree nxt = Node m cov cid l r"
    using get_max_eigenvalue_node_valid [OF nn, of eigen]
    by (cases "node_at tree nxt") (auto simp: nxt_def)
  define nl :: uchar where "nl = word_of_int (max_id tree + 1)"
  define cl where "cl = partition_rows (goes_left (snd (eigen cov)) m) cid nl (nl + 1) img classes"
  obtain mA cA where A: "get_class_mean_cov img cl (Node None None nl Null Null)
       = Node mA cA nl Null Null"
    using get_class_mean_cov_fields by blast
  obtain mB cB where B: "get_class_mean_cov img cl (Node None None (nl + 1) Null Null)
       = Node mB cB (nl + 1) Null Null"
    using get_class_mean_cov_fields by blast
  define N where "N = Node m cov cid (Node mA cA nl Null Null) (Node mB cB (nl + 1) Null Null)"
  have step: "split_step eigen (img, classes, tree) = (img, cl, modify_at nxt (\<lambda>x. N) tree)"
    unfolding split_step_unfold [OF at [unfolded nxt_def]] nl_def [symmetric]
      cl_def [symmetric] A B N_def nxt_def ..
  have M0: "0 \<le> max_id tree" by (rule max_id_nonneg)
  have unl: "uint nl = max_id tree + 1"
    unfolding nl_def using M0 small by (intro uint_uchar_of_int) simp_all
  have "nl + 1 = word_of_int (max_id tree + 2)"
    by (simp add: nl_def)
  then have unr: "uint (nl + 1) = max_id tree + 2"
    using M0 small by (simp only: uint_uchar_of_int)
  have sub: "max_id (node_at tree nxt) \<le> max_id tree"
    by (rule max_id_node_at)
  then have cid: "uint cid \<le> max_id tree"
    by (simp add: at)
  have mN: "max_id N = max_id tree + 2"
    using cid M0 by (simp add: N_def unl unr)
  have "max_id (modify_at nxt (\<lambda>x. N) tree) = max (max_id tree) (max_id N)"
    by (rule max_id_graft) (use at sub mN in simp_all)
  then show ?thesis
    by (simp add: step mN)
qed

lemma run_max_id: "k \<le> 127 \<Longrightarrow> max_id (snd (snd (run_state eigen img k))) = 2 * int k + 1"
proof (induction k)
  case 0
  obtain m' c' where "get_class_mean_cov img (map (map (\<lambda>p. 1)) img) (Node None None 1 Null Null)
      = Node m' c' 1 Null Null"
    using get_class_mean_cov_fields by blast
  then show ?case
    by (simp add: run_state_def initial_state_def Let_def new_t_color_node_def)
next
  case (Suc k)
  obtain img' classes tree where s: "run_state eigen img k = (img', classes, tree)"
    by (cases "run_state eigen img k") auto
  have nn: "tree \<noteq> Null" using run_tree_not_Null [of eigen img k] by (simp add: s)
  have M: "max_id tree = 2 * int k + 1" using Suc by (simp add: s)
  have "max_id tree \<le> 253" using Suc.prems M by simp
  from split_step_max_id [OF nn this, of eigen img' classes] show ?case
    by (simp add: run_state_Suc s M)
qed

lemma run_new_ids:
  assumes "k \<le> 127"
  shows "new_ids eigen (run_state eigen img k) =
           (word_of_int (2 * int k + 2), word_of_int (2 * int k + 2) + 1)"
proof -
  obtain img' classes tree where s: "run_state eigen img k = (img', classes, tree)"
    by (cases "run_state eigen img k") auto
  have nn: "tree \<noteq> Null" using run_tree_not_Null [of eigen img k] by (simp add: s)
  have M: "max_id tree = 2 * int k + 1" using run_max_id [OF assms, of eigen img] by (simp add: s)
  show ?thesis
    unfolding s split_step_new_ids [OF nn] M by simp
qed

lemma classid_graft:
  "node_at t p = Node m cov cid l r \<Longrightarrow>
     classid (modify_at p (\<lambda>x. Node m cov cid A B) t) = classid t"
  by (induction t p rule: node_at.induct) auto

lemma run_root_classid: "classid (snd (snd (run_state eigen img k))) = 1"
proof (induction k)
  case 0
  obtain m' c' where "get_class_mean_cov img (map (map (\<lambda>p. 1)) img) (Node None None 1 Null Null)
      = Node m' c' 1 Null Null"
    using get_class_mean_cov_fields by blast
  then show ?case
    by (simp add: run_state_def initial_state_def Let_def new_t_color_node_def)
next
  case (Suc k)
  obtain img' classes tree where s: "run_state eigen img k = (img', classes, tree)"
    by (cases "run_state eigen img k") auto
  have nn: "tree \<noteq> Null" using run_tree_not_Null [of eigen img k] by (simp add: s)
  obtain m cov cid l r
    where at: "node_at tree (get_max_eigenvalue_node eigen tree) = Node m cov cid l r"
    using get_max_eigenvalue_node_valid [OF nn, of eigen]
    by (cases "node_at tree (get_max_eigenvalue_node eigen tree)") auto
  show ?case
    unfolding run_state_Suc s split_step_unfold [OF at]
    using Suc by (simp add: classid_graft [OF at] s)
qed

lemma run_new_ids_increasing:
  assumes "k \<le> 126"
  shows "max_id (snd (snd (run_state eigen img k))) < uint (fst (new_ids eigen (run_state eigen img k)))
     \<and> uint (fst (new_ids eigen (run_state eigen img k)))
         < uint (snd (new_ids eigen (run_state eigen img k)))"
proof -
  define nl :: uchar where "nl = word_of_int (2 * int k + 2)"
  have k: "k \<le> 127" using assms by simp
  have ids: "new_ids eigen (run_state eigen img k) = (nl, nl + 1)"
    unfolding nl_def by (rule run_new_ids [OF k])
  have a: "uint nl = 2 * int k + 2"
    unfolding nl_def using assms by (intro uint_uchar_of_int) simp_all
  have "nl + 1 = word_of_int (2 * int k + 3)"
    by (simp add: nl_def)
  moreover have "uint (word_of_int (2 * int k + 3) :: uchar) = 2 * int k + 3"
    using assms by (intro uint_uchar_of_int) simp_all
  ultimately have b: "uint (nl + 1) = 2 * int k + 3"
    by (simp only:)
  show ?thesis
    unfolding ids fst_conv snd_conv a b run_max_id [OF k] by simp
qed

text \<open>
  C2 on the code. In every run the first 127 splits assign the pairs (2, 3), (4, 5), ...,
  (254, 255), each above every id of the tree (\<open>run_new_ids_increasing\<close>). The 128th
  split, which every target count from 129 to 255 reaches, gets 256 from
  \<open>get_next_classid\<close>; \<open>partition_class\<close> takes it as the \<open>uchar\<close> 0 and assigns the
  pair (0, 1): below the ids assigned before, and 1 is the id of the root.
\<close>

theorem ids_wrap_at_split_128:
  "new_ids eigen_diag (run_state eigen_diag [[(7, 7, 7)]] 126) = (254, 255)
   \<and> new_ids eigen_diag (run_state eigen_diag [[(7, 7, 7)]] 127) = (0, 1)
   \<and> classid (snd (snd (run_state eigen_diag [[(7, 7, 7)]] 127))) = 1"
  using run_new_ids [of 126 eigen_diag "[[(7, 7, 7)]]"]
    run_new_ids [of 127 eigen_diag "[[(7, 7, 7)]]"]
    run_root_classid [of eigen_diag "[[(7, 7, 7)]]" 127]
  by simp

section \<open>The split as a partition of the class\<close>

lemma relabel_counts:
  assumes "nl \<notin> snd ` set ps" and "nr \<notin> snd ` set ps" and "nl \<noteq> nr"
  shows "count_list (map (relabel lft cid nl nr) ps) nl
           + count_list (map (relabel lft cid nl nr) ps) nr
         = count_list (map snd ps) cid"
  using assms
proof (induction ps)
  case Nil
  show ?case by simp
next
  case (Cons pc ps)
  obtain color c where pc: "pc = (color, c)" by (cases pc) auto
  from Cons.prems have "c \<noteq> nl" "c \<noteq> nr" by (auto simp: pc)
  moreover from Cons have "count_list (map (relabel lft cid nl nr) ps) nl
           + count_list (map (relabel lft cid nl nr) ps) nr
         = count_list (map snd ps) cid" by simp
  ultimately show ?case using Cons.prems(3) by (simp add: pc)
qed

lemma relabel_no_parent:
  assumes "cid \<noteq> nl" and "cid \<noteq> nr"
  shows "cid \<notin> set (map (relabel lft cid nl nr) ps)"
  using assms by (induction ps) (auto split: if_splits)

lemma partition_total_when_fresh:
  assumes "map length classes = map length img"
    and "nl \<notin> set (concat classes)" and "nr \<notin> set (concat classes)" and "nl \<noteq> nr"
  shows "count_list (concat (partition_rows lft cid nl nr img classes)) nl
           + count_list (concat (partition_rows lft cid nl nr img classes)) nr
         = count_list (concat classes) cid
       \<and> (cid \<in> set (concat classes) \<longrightarrow>
            cid \<notin> set (concat (partition_rows lft cid nl nr img classes)))"
proof -
  have snd: "map snd (paired img classes) = concat classes"
    by (rule map_snd_paired [OF assms(1)])
  have f: "nl \<notin> snd ` set (paired img classes)" "nr \<notin> snd ` set (paired img classes)"
    using assms(2,3) snd by (metis set_map)+
  have "cid \<notin> set (map (relabel lft cid nl nr) (paired img classes))"
    if "cid \<in> set (concat classes)"
    by (rule relabel_no_parent) (use that assms(2,3) in auto)
  then show ?thesis
    using relabel_counts [OF f assms(4), of lft cid]
    by (simp add: concat_partition_rows [OF assms(1)] snd)
qed

lemma one_pixel_selected:
  assumes p: "p \<in> set (leaf_paths tree)"
    and at: "node_at tree p =
            Node (Some (7 / 255, 7 / 255, 7 / 255)) (Some ((0, 0, 0), (0, 0, 0), (0, 0, 0))) c
              Null Null"
    and others: "\<forall>q \<in> set (leaf_paths tree). q \<noteq> p \<longrightarrow> covariance (node_at tree q) = None"
  shows "get_max_eigenvalue_node eigen_diag tree = p"
proof (rule ccontr)
  define nxt where "nxt = get_max_eigenvalue_node eigen_diag tree"
  assume "get_max_eigenvalue_node eigen_diag tree \<noteq> p"
  then have ne: "nxt \<noteq> p" by (simp add: nxt_def)
  have top: "top_eigenvalue eigen_diag (node_at tree p) = Some 0"
    by (simp add: at eigen_diag_def)
  from get_max_eigenvalue_node_maximal [OF p top] obtain w
    where leaf: "nxt \<in> set (leaf_paths tree)"
      and w: "top_eigenvalue eigen_diag (node_at tree nxt) = Some w"
    unfolding nxt_def by auto
  have none: "covariance (node_at tree nxt) = None"
    using others leaf ne by blast
  obtain m' c' cid' l' r' where n: "node_at tree nxt = Node m' c' cid' l' r'"
    using node_at_leaf_path [OF leaf] by (cases "node_at tree nxt") auto
  have "top_eigenvalue eigen_diag (node_at tree nxt) = None"
    using none by (simp add: n eigen_diag_def)
  with w show False by simp
qed

lemma one_pixel_step:
  assumes "one_pixel_inv c s"
  shows "one_pixel_inv (word_of_int (max_id (snd (snd s)) + 1)) (split_step eigen_diag s)
     \<and> classid (node_at (snd (snd s)) (get_max_eigenvalue_node eigen_diag (snd (snd s)))) = c
     \<and> max_id (snd (snd (split_step eigen_diag s))) =
         max (max_id (snd (snd s)))
           (max (uint (word_of_int (max_id (snd (snd s)) + 1) :: uchar))
                (uint (word_of_int (max_id (snd (snd s)) + 1) + 1 :: uchar)))"
proof -
  let ?x = "(7 / 255, 7 / 255, 7 / 255) :: vec3"
  let ?Z = "((0, 0, 0), (0, 0, 0), (0, 0, 0)) :: mat3"
  from assms obtain tree p where s: "s = ([[(7, 7, 7)]], [[c]], tree)"
    and p: "p \<in> set (leaf_paths tree)"
    and at: "node_at tree p = Node (Some ?x) (Some ?Z) c Null Null"
    and others: "\<forall>q \<in> set (leaf_paths tree). q \<noteq> p \<longrightarrow> covariance (node_at tree q) = None"
    unfolding one_pixel_inv_def by blast
  have sel: "get_max_eigenvalue_node eigen_diag tree = p"
    by (rule one_pixel_selected [OF p at others])
  define nl :: uchar where "nl = word_of_int (max_id tree + 1)"
  have cl: "partition_rows (goes_left (snd (eigen_diag (Some ?Z))) (Some ?x)) c nl (nl + 1)
              [[(7, 7, 7)]] [[c]] = [[nl]]"
    by (simp add: eigen_diag_def)
  have A: "get_class_mean_cov [[(7, 7, 7)]] [[nl]] (Node None None nl Null Null)
             = Node (Some ?x) (Some ?Z) nl Null Null"
    by (simp add: zero_vec_def zero_mat_def)
  have B: "get_class_mean_cov [[(7, 7, 7)]] [[nl]] (Node None None (nl + 1) Null Null)
             = Node None None (nl + 1) Null Null"
    by simp
  define N where "N = Node (Some ?x) (Some ?Z) c (Node (Some ?x) (Some ?Z) nl Null Null)
                        (Node None None (nl + 1) Null Null)"
  have step: "split_step eigen_diag s = ([[(7, 7, 7)]], [[nl]], modify_at p (\<lambda>x. N) tree)"
    unfolding s split_step_unfold [OF at [folded sel]] nl_def [symmetric] cl A B N_def sel ..
  have Nnn: "N \<noteq> Null" and Nleaves: "leaf_paths N = [[L], [R]]"
    by (simp_all add: N_def)
  have paths: "set (leaf_paths (modify_at p (\<lambda>x. N) tree)) =
                 (set (leaf_paths tree) - {p}) \<union> {p @ [L], p @ [R]}"
    using leaf_paths_graft_set [OF p Nnn] by (simp add: Nleaves)
  have atL: "node_at (modify_at p (\<lambda>x. N) tree) (p @ [L]) = Node (Some ?x) (Some ?Z) nl Null Null"
    and atR: "node_at (modify_at p (\<lambda>x. N) tree) (p @ [R]) = Node None None (nl + 1) Null Null"
    using node_at_modify_at [of tree p "\<lambda>x. N"] at by (simp_all add: N_def)
  have rest: "covariance (node_at (modify_at p (\<lambda>x. N) tree) q) = None"
    if q: "q \<in> set (leaf_paths (modify_at p (\<lambda>x. N) tree))" "q \<noteq> p @ [L]" for q
  proof (cases "q = p @ [R]")
    case True
    then show ?thesis by (simp add: atR)
  next
    case False
    with q paths have old: "q \<in> set (leaf_paths tree)" "q \<noteq> p" by auto
    then show ?thesis
      using node_at_graft_other [OF p old] others by simp
  qed
  have inv': "one_pixel_inv nl (split_step eigen_diag s)"
    unfolding one_pixel_inv_def step
    by (intro exI [of _ "modify_at p (\<lambda>x. N) tree"] exI [of _ "p @ [L]"])
       (use paths atL rest in auto)
  have "max_id (modify_at p (\<lambda>x. N) tree) = max (max_id tree) (max_id N)"
    by (rule max_id_graft) (simp_all add: at N_def)
  moreover have "uint c \<le> max_id tree"
    using max_id_node_at [of tree p] by (simp add: at)
  ultimately have mx: "max_id (modify_at p (\<lambda>x. N) tree)
                        = max (max_id tree) (max (uint nl) (uint (nl + 1)))"
    by (simp add: N_def)
  show ?thesis
  proof (intro conjI)
    show "one_pixel_inv (word_of_int (max_id (snd (snd s)) + 1)) (split_step eigen_diag s)"
      using inv' by (simp add: s nl_def)
    show "classid (node_at (snd (snd s)) (get_max_eigenvalue_node eigen_diag (snd (snd s)))) = c"
      by (simp add: s sel at)
    show "max_id (snd (snd (split_step eigen_diag s))) =
         max (max_id (snd (snd s)))
           (max (uint (word_of_int (max_id (snd (snd s)) + 1) :: uchar))
                (uint (word_of_int (max_id (snd (snd s)) + 1) + 1 :: uchar)))"
      unfolding step using mx by (simp add: s nl_def)
  qed
qed

lemma one_pixel_run:
  "one_pixel_inv (word_of_int (min (2 * int k + 1) 255 + 1))
     (run_state eigen_diag [[(7, 7, 7)]] (Suc k))
   \<and> max_id (snd (snd (run_state eigen_diag [[(7, 7, 7)]] (Suc k)))) = min (2 * int k + 3) 255"
proof (induction k)
  case 0
  have "one_pixel_inv 2 (run_state eigen_diag [[(7, 7, 7)]] (Suc 0))"
    unfolding one_pixel_inv_def one_pixel_run_1
    by (intro exI [of _ "[L]"] exI) auto
  then show ?case by (simp add: one_pixel_run_1)
next
  case (Suc k)
  define s where "s = run_state eigen_diag [[(7, 7, 7)]] (Suc k)"
  define M where "M = min (2 * int k + 3) 255"
  have inv: "one_pixel_inv (word_of_int (min (2 * int k + 1) 255 + 1)) s"
    and M: "max_id (snd (snd s)) = M"
    using Suc by (simp_all add: s_def M_def)
  from one_pixel_step [OF inv]
  have inv': "one_pixel_inv (word_of_int (M + 1)) (split_step eigen_diag s)"
    and mx: "max_id (snd (snd (split_step eigen_diag s))) =
               max M (max (uint (word_of_int (M + 1) :: uchar))
                          (uint (word_of_int (M + 1) + 1 :: uchar)))"
    by (simp_all add: M)
  have "max M (max (uint (word_of_int (M + 1) :: uchar)) (uint (word_of_int (M + 1) + 1 :: uchar)))
          = min (2 * int (Suc k) + 3) 255"
  proof (cases "2 * int k + 3 \<le> 253")
    case True
    then have Mv: "M = 2 * int k + 3" by (simp add: M_def)
    have a: "uint (word_of_int (M + 1) :: uchar) = M + 1"
      using True by (intro uint_uchar_of_int) (simp_all add: Mv)
    have "word_of_int (M + 1) + 1 = (word_of_int (M + 2) :: uchar)" by simp
    moreover have "uint (word_of_int (M + 2) :: uchar) = M + 2"
      using True by (intro uint_uchar_of_int) (simp_all add: Mv)
    ultimately have b: "uint (word_of_int (M + 1) + 1 :: uchar) = M + 2" by (simp only:)
    show ?thesis unfolding a b using True by (simp add: Mv)
  next
    case False
    then have Mv: "M = 255" by (simp add: M_def)
    show ?thesis using False by (simp add: Mv)
  qed
  then have mx': "max_id (snd (snd (split_step eigen_diag s))) = min (2 * int (Suc k) + 3) 255"
    using mx by (simp only:)
  have e: "2 * int (Suc k) + 1 = 2 * int k + 3" by simp
  have "one_pixel_inv (word_of_int (min (2 * int (Suc k) + 1) 255 + 1)) (split_step eigen_diag s)"
    unfolding e using inv' unfolding M_def .
  with mx' show ?case
    unfolding run_state_Suc [of _ _ "Suc k"] s_def [symmetric] by blast
qed

text \<open>
  In a run the first 127 splits use ids that are new to the buffer, so each of them is a
  total partition of the class of the node it splits.
\<close>

lemma run_split_total:
  assumes ok: "eigen_ok eigen" and k: "k \<le> 126"
    and s: "run_state eigen img k = (img', classes, tree)"
    and s': "run_state eigen img (Suc k) = (img'', classes', tree')"
    and ids: "new_ids eigen (run_state eigen img k) = (nl, nr)"
    and cid: "cid = classid (node_at tree (get_max_eigenvalue_node eigen tree))"
  shows "count_list (concat classes') nl + count_list (concat classes') nr
           = count_list (concat classes) cid
         \<and> (cid \<in> set (concat classes) \<longrightarrow> cid \<notin> set (concat classes'))"
proof -
  have k127: "k \<le> 127" using k by simp
  have inv: "run_inv img (img', classes, tree)"
    using run_inv_run_state [OF ok, of img k] by (simp add: s)
  then have img': "img' = img" and shape: "map length classes = map length img'"
    and nn: "tree \<noteq> Null"
    and leaves: "\<And>c. c \<in> set (concat classes) \<Longrightarrow> \<exists>p \<in> set (leaf_paths tree).
                 classid (node_at tree p) = c"
    unfolding run_inv_def by auto
  have M: "max_id tree = 2 * int k + 1"
    using run_max_id [OF k127, of eigen img] by (simp add: s)
  have "(nl, nr) = (word_of_int (2 * int k + 2), word_of_int (2 * int k + 2) + 1)"
    unfolding ids [symmetric] by (rule run_new_ids [OF k127])
  then have nlnr: "nl = word_of_int (2 * int k + 2)" "nr = word_of_int (2 * int k + 2) + 1"
    by (simp_all only: prod.inject)
  have unl: "uint nl = 2 * int k + 2"
    unfolding nlnr using k by (intro uint_uchar_of_int) simp_all
  have "nr = word_of_int (2 * int k + 3)" by (simp add: nlnr)
  moreover have "uint (word_of_int (2 * int k + 3) :: uchar) = 2 * int k + 3"
    using k by (intro uint_uchar_of_int) simp_all
  ultimately have unr: "uint nr = 2 * int k + 3" by (simp only:)
  have small: "uint c \<le> max_id tree" if "c \<in> set (concat classes)" for c
  proof -
    from leaves [OF that] obtain p where p: "p \<in> set (leaf_paths tree)"
      "classid (node_at tree p) = c" by blast
    obtain m' c' cid' l' r' where n: "node_at tree p = Node m' c' cid' l' r'"
      using node_at_leaf_path [OF p(1)] by (cases "node_at tree p") auto
    have "uint cid' \<le> max_id (node_at tree p)" by (simp add: n)
    also have "\<dots> \<le> max_id tree" by (rule max_id_node_at)
    finally show ?thesis using p(2) by (simp add: n)
  qed
  have fresh: "nl \<notin> set (concat classes)" "nr \<notin> set (concat classes)" "nl \<noteq> nr"
    using small unl unr M by fastforce+
  obtain m cov cid0 l r
    where at: "node_at tree (get_max_eigenvalue_node eigen tree) = Node m cov cid0 l r"
    using get_max_eigenvalue_node_valid [OF nn, of eigen]
    by (cases "node_at tree (get_max_eigenvalue_node eigen tree)") auto
  have c0: "cid0 = cid" by (simp add: cid at)
  have nl': "word_of_int (max_id tree + 1) = nl" "nl + 1 = nr"
    by (simp_all add: nlnr M)
  have "classes' = fst (snd (split_step eigen (img', classes, tree)))"
    using s' by (simp add: run_state_Suc s)
  also have "\<dots> = partition_rows (goes_left (snd (eigen cov)) m) cid0
                      (word_of_int (max_id tree + 1)) (word_of_int (max_id tree + 1) + 1)
                      img' classes"
    by (simp only: split_step_unfold [OF at] fst_conv snd_conv)
  finally have "classes' = partition_rows (goes_left (snd (eigen cov)) m) cid nl nr img' classes"
    unfolding nl' c0 .
  then show ?thesis
    using partition_total_when_fresh [OF shape fresh] by simp
qed

text \<open>
  C5 on the code. The relabelling rule is the claimed one (\<open>concat_partition_rows\<close> with
  \<open>goes_left\<close>: left when the projection is at most the threshold). As long as the two
  new ids do not occur in the buffer, no pixel keeps the id of the parent and the pixels
  of the two new ids are as many as the parent had (\<open>partition_total_when_fresh\<close>,
  and \<open>run_split_total\<close> for the first 127 splits of every run).
  After the ids have wrapped this fails: on the 1x1 image the pixel is in class 0 after
  128 splits, the 129th split selects the leaf with id 0, receives \<open>nextid = 0\<close> again,
  and afterwards the pixel still has the id 0 of the node that was split.
\<close>

theorem pixel_keeps_parent_id_at_split_129:
  "fst (snd (run_state eigen_diag [[(7, 7, 7)]] 128)) = [[0]]
   \<and> classid (node_at (snd (snd (run_state eigen_diag [[(7, 7, 7)]] 128)))
        (get_max_eigenvalue_node eigen_diag (snd (snd (run_state eigen_diag [[(7, 7, 7)]] 128)))))
       = 0
   \<and> fst (snd (run_state eigen_diag [[(7, 7, 7)]] 129)) = [[0]]"
proof -
  have z: "(word_of_int (min (2 * int 127 + 1) 255 + 1) :: uchar) = 0"
      "(word_of_int (min (2 * int 128 + 1) 255 + 1) :: uchar) = 0"
    by simp_all
  have n: "Suc 127 = 128" "Suc 128 = 129" by simp_all
  have s128: "one_pixel_inv 0 (run_state eigen_diag [[(7, 7, 7)]] 128)"
    using one_pixel_run [of 127, THEN conjunct1] unfolding z n .
  have s129: "one_pixel_inv 0 (run_state eigen_diag [[(7, 7, 7)]] 129)"
    using one_pixel_run [of 128, THEN conjunct1] unfolding z n .
  have "classid (node_at (snd (snd (run_state eigen_diag [[(7, 7, 7)]] 128)))
        (get_max_eigenvalue_node eigen_diag (snd (snd (run_state eigen_diag [[(7, 7, 7)]] 128)))))
       = 0"
    using one_pixel_step [OF s128] by blast
  moreover have "fst (snd (run_state eigen_diag [[(7, 7, 7)]] 128)) = [[0]]"
    using s128 unfolding one_pixel_inv_def by auto
  moreover have "fst (snd (run_state eigen_diag [[(7, 7, 7)]] 129)) = [[0]]"
    using s129 unfolding one_pixel_inv_def by auto
  ultimately show ?thesis by blast
qed

section \<open>Determinism\<close>










lemma first_leaf_wins_tie:
  assumes "fst (eigen cl) = Some v" and "fst (eigen cr) = Some v" and "- 1 < v"
  shows "get_max_eigenvalue_node eigen
           (Node m c cid (Node ml cl il Null Null) (Node mr cr ir Null Null)) = [L]"
  using assms by simp


end
